theory Spec2Isabelle
  imports Main
begin

section \<open>functions/get-public-ip.ts\<close>

subsection \<open>Strings and values\<close>

text \<open>
  A JavaScript string is a sequence of UTF-16 code units; \<open>js\<close> turns a literal of the
  source into one.
\<close>

type_synonym js_string = "nat list"

definition js :: "string \<Rightarrow> js_string" where
  "js s = map of_char s"

text \<open>
  The values that \<open>JSON.parse\<close> builds, and \<open>undefined\<close>, which a property access
  yields for a missing property. A number is represented by the string that its conversion
  to a string gives; an object by its own properties. The type annotations of the source
  are not checked when the code runs, so \<open>checkIfValidIP\<close> and \<open>getPublicIp\<close> are
  modelled on all values.
\<close>

datatype js_value =
    JUndefined
  | JNull
  | JBool bool
  | JNum js_string
  | JStr js_string
  | JArr "js_value list"
  | JObj "(js_string \<times> js_value) list"

text \<open>An \<open>Error\<close> object: its name and its message.\<close>

datatype js_error = JsError js_string js_string

text \<open>\<open>Error.prototype.toString\<close>, as the string concatenation in \<open>getPublicIp\<close> calls it.\<close>

fun error_toString :: "js_error \<Rightarrow> js_string" where
  "error_toString (JsError name msg) =
     (if name = [] then msg else if msg = [] then name else name @ js '': '' @ msg)"

text \<open>
  The conversion of a value to a string, as \<open>RegExp.prototype.test\<close> and a template
  literal apply it to their argument. An array is converted by \<open>join\<close>: its elements
  are converted in turn, \<open>undefined\<close> and \<open>null\<close> to the empty string, and separated
  by commas. A parsed object is \<open>[object Object]\<close>, unless it has an own property
  \<open>toString\<close>: that property is no function, and neither is an own \<open>valueOf\<close>, while
  the inherited \<open>valueOf\<close> returns the object, so that the conversion throws a
  \<open>TypeError\<close>.
\<close>

fun js_toString :: "js_value \<Rightarrow> js_error + js_string"
  and join_elements :: "js_value list \<Rightarrow> js_error + js_string" where
  "js_toString JUndefined = Inr (js ''undefined'')"
| "js_toString JNull = Inr (js ''null'')"
| "js_toString (JBool b) = Inr (if b then js ''true'' else js ''false'')"
| "js_toString (JNum n) = Inr n"
| "js_toString (JStr s) = Inr s"
| "js_toString (JArr xs) = join_elements xs"
| "js_toString (JObj ps) =
     (if js ''toString'' \<in> set (map fst ps)
      then Inl (JsError (js ''TypeError'') (js ''Cannot convert object to primitive value''))
      else Inr (js ''[object Object]''))"
| "join_elements [] = Inr []"
| "join_elements (x # xs) =
     (case (if x = JUndefined \<or> x = JNull then Inr [] else js_toString x) of
        Inl e \<Rightarrow> Inl e
      | Inr s \<Rightarrow>
          (if xs = [] then Inr s
           else (case join_elements xs of
                   Inl e \<Rightarrow> Inl e
                 | Inr t \<Rightarrow> Inr (s @ js '','' @ t))))"

subsection \<open>The regular expression of checkIfValidIP\<close>

text \<open>
  The pattern is built from pattern characters, class ranges, the assertions \<open>^\<close> and
  \<open>$\<close>, sequence, alternation and the bounded repetition \<open>{n}\<close>.
\<close>

datatype regex =
    Chr char
  | Cls char char
  | Bol
  | Eol
  | Seq regex regex
  | Alt regex regex
  | Rep nat regex

text \<open>
  The flag \<open>i\<close>: code units are compared after canonicalisation. Without the flag
  \<open>u\<close> that is the upper-case mapping, which sends \<open>a..z\<close> to \<open>A..Z\<close>, leaves the
  other code units below 128 as they are, and gives a code unit from 128 on a canonical
  form that is again 128 or more. The characters of the pattern are all below 128, so the
  model leaves the code units from 128 on as they are: whatever their canonical form is,
  it is the canonical form of no character of the pattern.
\<close>

definition canonicalize :: "nat \<Rightarrow> nat" where
  "canonicalize cu = (if 97 \<le> cu \<and> cu \<le> 122 then cu - 32 else cu)"

text \<open>
  A class range \<open>[lo-hi]\<close> matches a code unit when some member of the range has the
  same canonical form: \<open>class_has lo n cu\<close> looks through the \<open>n\<close> code units from
  \<open>lo\<close> on.
\<close>

fun class_has :: "nat \<Rightarrow> nat \<Rightarrow> nat \<Rightarrow> bool" where
  "class_has lo 0 cu = False"
| "class_has lo (Suc n) cu = (canonicalize lo = cu \<or> class_has (Suc lo) n cu)"

definition chr_match :: "char \<Rightarrow> nat \<Rightarrow> bool" where
  "chr_match c x = (canonicalize (of_char c) = canonicalize x)"

definition cls_match :: "char \<Rightarrow> char \<Rightarrow> nat \<Rightarrow> bool" where
  "cls_match lo hi x =
     class_has (of_char lo) (Suc (of_char hi) - of_char lo) (canonicalize x)"

fun rsize :: "regex \<Rightarrow> nat" where
  "rsize (Seq a b) = Suc (rsize a + rsize b)"
| "rsize (Alt a b) = Suc (rsize a + rsize b)"
| "rsize (Rep n r) = Suc (n + rsize r)"
| "rsize _ = 0"

text \<open>
  The backtracking matcher: \<open>matcher r i s k\<close> tries \<open>r\<close> at index \<open>i\<close>, where
  \<open>s\<close> is the input from \<open>i\<close> on, and hands the end index and the rest of the input
  to the continuation \<open>k\<close>; an alternative that fails later is retried with the next
  one.
\<close>

function matcher :: "regex \<Rightarrow> nat \<Rightarrow> js_string \<Rightarrow> (nat \<Rightarrow> js_string \<Rightarrow> bool) \<Rightarrow> bool" where
  "matcher (Chr c) i s k = (case s of [] \<Rightarrow> False | x # xs \<Rightarrow> chr_match c x \<and> k (Suc i) xs)"
| "matcher (Cls lo hi) i s k =
     (case s of [] \<Rightarrow> False | x # xs \<Rightarrow> cls_match lo hi x \<and> k (Suc i) xs)"
| "matcher Bol i s k = (i = 0 \<and> k i s)"
| "matcher Eol i s k = (s = [] \<and> k i s)"
| "matcher (Seq a b) i s k = matcher a i s (\<lambda>j t. matcher b j t k)"
| "matcher (Alt a b) i s k = (matcher a i s k \<or> matcher b i s k)"
| "matcher (Rep 0 r) i s k = k i s"
| "matcher (Rep (Suc n) r) i s k = matcher r i s (\<lambda>j t. matcher (Rep n r) j t k)"
  by pat_completeness auto
termination
  by (relation "measure (\<lambda>(r, _). rsize r)") auto

text \<open>
  \<open>RegExp.prototype.test\<close> on a regular expression with the flag \<open>g\<close>, applied to a
  string: the search starts at \<open>lastIndex\<close> and tries every start index up to the
  length of the input. The literal is evaluated anew at every call of
  \<open>checkIfValidIP\<close>, so \<open>lastIndex\<close> is 0.
\<close>

fun exec_from :: "regex \<Rightarrow> nat \<Rightarrow> js_string \<Rightarrow> bool" where
  "exec_from r i [] = matcher r i [] (\<lambda>_ _. True)"
| "exec_from r i (x # xs) = (matcher r i (x # xs) (\<lambda>_ _. True) \<or> exec_from r (Suc i) xs)"

definition test :: "regex \<Rightarrow> js_string \<Rightarrow> bool" where
  "test r s = exec_from r 0 s"

text \<open>\<open>[0-9]|[1-9][0-9]|1[0-9]{2}|2[0-4][0-9]|25[0-5]\<close>\<close>

definition octetExp :: regex where
  "octetExp =
     Alt (Cls CHR ''0'' CHR ''9'')
    (Alt (Seq (Cls CHR ''1'' CHR ''9'') (Cls CHR ''0'' CHR ''9''))
    (Alt (Seq (Chr CHR ''1'') (Rep 2 (Cls CHR ''0'' CHR ''9'')))
    (Alt (Seq (Chr CHR ''2'') (Seq (Cls CHR ''0'' CHR ''4'') (Cls CHR ''0'' CHR ''9'')))
         (Seq (Chr CHR ''2'') (Seq (Chr CHR ''5'') (Cls CHR ''0'' CHR ''5''))))))"

text \<open>\<open>^((octet)\.){3}(octet)$\<close>\<close>

definition regexExp :: regex where
  "regexExp =
     Seq Bol (Seq (Rep 3 (Seq octetExp (Chr CHR ''.''))) (Seq octetExp Eol))"

subsection \<open>checkIfValidIP and getPublicIp\<close>

text \<open>
  \<open>checkIfValidIP\<close>: \<open>test\<close> converts its argument to a string, which may throw;
  the value returned is the argument itself, not the string.
\<close>

definition checkIfValidIP :: "js_value \<Rightarrow> js_error + js_value" where
  "checkIfValidIP ip =
     (case js_toString ip of
        Inl e \<Rightarrow> Inl e
      | Inr s \<Rightarrow>
          if test regexExp s then Inr ip
          else Inl (JsError (js ''Error'') (s @ js '' does not look valid.'')))"

text \<open>
  The response of \<open>fetch\<close>: its method \<open>json\<close> either rejects or resolves to the parsed
  body. The cast of the body to \<open>IPIfyResponse\<close> checks nothing.
\<close>

datatype response = Response "js_error + js_value"

fun json :: "response \<Rightarrow> js_error + js_value" where
  "json (Response r) = r"

text \<open>
  The property access \<open>data.ip\<close>: it throws on \<open>null\<close> and \<open>undefined\<close>, yields
  the own property \<open>ip\<close> of an object, and \<open>undefined\<close> where there is none.
\<close>

fun get_ip :: "js_value \<Rightarrow> js_error + js_value" where
  "get_ip JUndefined =
     Inl (JsError (js ''TypeError'') (js ''Cannot read properties of undefined (reading 'ip')''))"
| "get_ip JNull =
     Inl (JsError (js ''TypeError'') (js ''Cannot read properties of null (reading 'ip')''))"
| "get_ip (JObj ps) = Inr (case map_of ps (js ''ip'') of None \<Rightarrow> JUndefined | Some v \<Rightarrow> v)"
| "get_ip _ = Inr JUndefined"

text \<open>
  \<open>getPublicIp\<close>, given what \<open>fetch\<close> settles to. A rejected \<open>fetch\<close> is awaited
  outside the promise chain and rejects \<open>getPublicIp\<close> as it is; a rejection of
  \<open>json\<close>, a throw of the property access or a throw of \<open>checkIfValidIP\<close> reaches
  the \<open>catch\<close>, which throws a new error.
\<close>

definition getPublicIp :: "js_error + response \<Rightarrow> js_error + js_value" where
  "getPublicIp fetched =
     (case fetched of
        Inl e \<Rightarrow> Inl e
      | Inr response \<Rightarrow>
          (case (case json response of
                   Inl e \<Rightarrow> Inl e
                 | Inr data \<Rightarrow>
                     (case get_ip data of
                        Inl e \<Rightarrow> Inl e
                      | Inr v \<Rightarrow> checkIfValidIP v)) of
             Inl err \<Rightarrow>
               Inl (JsError (js ''Error'')
                      (js ''Couldn't get your public IP: '' @ error_toString err))
           | Inr v \<Rightarrow> Inr v))"

subsection \<open>Dotted quads\<close>

text \<open>The parts of a string between the occurrences of a separator.\<close>

fun split_on :: "nat \<Rightarrow> js_string \<Rightarrow> js_string list" where
  "split_on c [] = [[]]"
| "split_on c (x # xs) =
     (if x = c then [] # split_on c xs
      else (case split_on c xs of [] \<Rightarrow> [[x]] | p # ps \<Rightarrow> (x # p) # ps))"

text \<open>The code units of the decimal digits are 48 to 57; the dot is 46.\<close>

definition is_digit :: "nat \<Rightarrow> bool" where
  "is_digit x = (48 \<le> x \<and> x \<le> 57)"

text \<open>The value of a string of decimal digits.\<close>

definition dec_val :: "js_string \<Rightarrow> nat" where
  "dec_val s = foldl (\<lambda>a x. 10 * a + (x - 48)) 0 s"

text \<open>
  An octet in the wide sense: a nonempty string of decimal digits whose value is at most
  255.
\<close>

definition octet_in_range :: "js_string \<Rightarrow> bool" where
  "octet_in_range s = (s \<noteq> [] \<and> list_all is_digit s \<and> dec_val s \<le> 255)"

text \<open>An octet written without leading zeros.\<close>

definition octet_canonical :: "js_string \<Rightarrow> bool" where
  "octet_canonical s = (octet_in_range s \<and> (length s = 1 \<or> hd s \<noteq> 48))"

definition dotted_quad_in_range :: "js_string \<Rightarrow> bool" where
  "dotted_quad_in_range s =
     (case split_on 46 s of
        [a, b, c, d] \<Rightarrow> octet_in_range a \<and> octet_in_range b \<and> octet_in_range c \<and> octet_in_range d
      | _ \<Rightarrow> False)"

definition dotted_quad_canonical :: "js_string \<Rightarrow> bool" where
  "dotted_quad_canonical s =
     (case split_on 46 s of
        [a, b, c, d] \<Rightarrow>
          octet_canonical a \<and> octet_canonical b \<and> octet_canonical c \<and> octet_canonical d
      | _ \<Rightarrow> False)"

subsection \<open>The language of a pattern\<close>

text \<open>
  A pattern without assertions denotes a set of strings; the matcher is related to it
  below. \<open>octet_shape\<close> spells out the five alternatives of \<open>octetExp\<close>.
\<close>

fun plain :: "regex \<Rightarrow> bool" where
  "plain Bol = False"
| "plain Eol = False"
| "plain (Seq a b) = (plain a \<and> plain b)"
| "plain (Alt a b) = (plain a \<and> plain b)"
| "plain (Rep n r) = plain r"
| "plain _ = True"

function lang :: "regex \<Rightarrow> js_string set" where
  "lang (Chr c) = {[x] | x. chr_match c x}"
| "lang (Cls lo hi) = {[x] | x. cls_match lo hi x}"
| "lang Bol = {}"
| "lang Eol = {}"
| "lang (Seq a b) = {u @ v | u v. u \<in> lang a \<and> v \<in> lang b}"
| "lang (Alt a b) = lang a \<union> lang b"
| "lang (Rep 0 r) = {[]}"
| "lang (Rep (Suc n) r) = {u @ v | u v. u \<in> lang r \<and> v \<in> lang (Rep n r)}"
  by pat_completeness auto
termination
  by (relation "measure rsize") auto

definition octet_shape :: "js_string \<Rightarrow> bool" where
  "octet_shape u \<longleftrightarrow>
     (\<exists>x. u = [x] \<and> is_digit x) \<or>
     (\<exists>x y. u = [x, y] \<and> 49 \<le> x \<and> x \<le> 57 \<and> is_digit y) \<or>
     (\<exists>x y z. u = [x, y, z] \<and> x = 49 \<and> is_digit y \<and> is_digit z) \<or>
     (\<exists>x y z. u = [x, y, z] \<and> x = 50 \<and> 48 \<le> y \<and> y \<le> 52 \<and> is_digit z) \<or>
     (\<exists>x y z. u = [x, y, z] \<and> x = 50 \<and> y = 53 \<and> 48 \<le> z \<and> z \<le> 53)"

section \<open>constructs/CloudWatchToSplunk.ts\<close>

subsection \<open>What the construct library provides\<close>

text \<open>
  A construct is identified by its path in the construct tree. The attributes of a
  resource that are only known at deployment (\<open>streamArn\<close>, \<open>roleArn\<close>,
  \<open>logGroupName\<close>, ...) are tokens that synthesize to \<open>Ref\<close> and \<open>Fn::GetAtt\<close>,
  as the expected template of the test shows.
\<close>

type_synonym path = "string list"

datatype cfn = Lit string | Ref path | GetAtt path string | Join "cfn list"

text \<open>
  A string that holds tokens synthesizes to the concatenation of its fragments: nested
  concatenations are spliced in, adjacent literals are merged, and a single fragment
  stands for itself.
\<close>

fun flatten :: "cfn \<Rightarrow> cfn list" where
  "flatten (Join xs) = concat (map flatten xs)"
| "flatten x = [x]"

fun merge_lits :: "cfn list \<Rightarrow> cfn list" where
  "merge_lits (Lit a # Lit b # rest) = merge_lits (Lit (a @ b) # rest)"
| "merge_lits (x # rest) = x # merge_lits rest"
| "merge_lits [] = []"

definition cfn_concat :: "cfn list \<Rightarrow> cfn" where
  "cfn_concat xs =
     (case merge_lits (concat (map flatten xs)) of
        [] \<Rightarrow> Lit []
      | [x] \<Rightarrow> x
      | ys \<Rightarrow> Join ys)"

text \<open>
  A \<open>SecretValue\<close> is either given in plain text (the test:
  \<open>SecretValue.plainText('value')\<close>) or refers to a secret of Secrets Manager by its
  id, a string that may hold tokens (the stack: \<open>splunkHecToken.secretValue\<close>, whose
  id is the reference to the secret resource). Its \<open>toString\<close> is what the template
  holds: the text itself, or the dynamic reference
  \<open>{{resolve:secretsmanager:<id>:SecretString:::}}\<close> that CloudFormation resolves at
  deployment.
\<close>

datatype SecretValue = plainText string | secretsManager cfn

fun SecretValue_toString :: "SecretValue \<Rightarrow> cfn" where
  "SecretValue_toString (plainText v) = Lit v"
| "SecretValue_toString (secretsManager secretId) =
     cfn_concat [Lit ''{{resolve:secretsmanager:'', secretId, Lit '':SecretString:::}}'']"

datatype StreamMode = PROVISIONED | ON_DEMAND

datatype RemovalPolicy = DESTROY | RETAIN | SNAPSHOT

datatype RetentionDays = ONE_DAY | THREE_DAYS | FIVE_DAYS | ONE_WEEK | INFINITE

datatype Runtime = NODEJS_12_X | NODEJS_14_X | NODEJS_16_X

definition Duration_minutes :: "nat \<Rightarrow> nat" where
  "Duration_minutes n = 60 * n"

record Stream =
  path :: path
  streamMode :: "StreamMode option"
  shardCount :: "nat option"
  retentionPeriod :: "nat option"

definition Stream_streamArn :: "Stream \<Rightarrow> cfn" where
  "Stream_streamArn s = GetAtt (Stream.path s) ''Arn''"

text \<open>
  The retention of the synthesized stream, in hours: the library's default where the
  construct passes no \<open>retentionPeriod\<close> (the test expects \<open>RetentionPeriodHours: 24\<close>).
\<close>

definition RetentionPeriodHours :: "Stream \<Rightarrow> nat" where
  "RetentionPeriodHours s = (case retentionPeriod s of None \<Rightarrow> 24 | Some h \<Rightarrow> h)"

record SubscriptionFilter =
  destinationArn :: cfn
  filterPattern :: string
  roleArn :: cfn

datatype child = SubscriptionFilterChild SubscriptionFilter | OtherChild

text \<open>
  A log group is an object that the caller shares with the construct: its children in
  the construct tree are state, and the same log group may occur twice in a list. Log
  groups therefore live in a store, and the construct receives references. A new log
  group has one child, its resource \<open>Resource\<close>.
\<close>

record LogGroup =
  path :: path
  removalPolicy :: "RemovalPolicy option"
  retention :: "RetentionDays option"
  children :: "(string \<times> child) list"

type_synonym store = "nat \<Rightarrow> LogGroup"

definition LogGroup_logGroupName :: "LogGroup \<Rightarrow> cfn" where
  "LogGroup_logGroupName lg = Ref (LogGroup.path lg)"

definition LogGroup_logGroupArn :: "LogGroup \<Rightarrow> cfn" where
  "LogGroup_logGroupArn lg = GetAtt (LogGroup.path lg) ''Arn''"

text \<open>The construct tree refuses a second child with an id already in use.\<close>

datatype cdk_error = DuplicateConstruct path string

text \<open>\<open>FilterPattern.allEvents()\<close>: the empty pattern string.\<close>

definition FilterPattern_allEvents :: string where
  "FilterPattern_allEvents = []"

text \<open>
  \<open>new KinesisDestination(stream)\<close>, bound to a subscription filter at the path
  \<open>scope\<close>: the destination is the stream, and the role that lets CloudWatch Logs put
  records is created under the filter.
\<close>

definition KinesisDestination :: "Stream \<Rightarrow> path \<Rightarrow> cfn \<times> cfn" where
  "KinesisDestination stream scope =
     (Stream_streamArn stream, GetAtt (scope @ [''CloudWatchLogsCanPutRecords'']) ''Arn'')"

text \<open>\<open>logGroup.addSubscriptionFilter(id, {destination, filterPattern})\<close>\<close>

definition addSubscriptionFilter ::
    "store \<Rightarrow> nat \<Rightarrow> string \<Rightarrow> (path \<Rightarrow> cfn \<times> cfn) \<Rightarrow> string \<Rightarrow> cdk_error + store" where
  "addSubscriptionFilter st ref ident destination pattern =
     (let lg = st ref in
      if ident \<in> set (map fst (children lg)) then Inl (DuplicateConstruct (LogGroup.path lg) ident)
      else
        let (arn, role) = destination (LogGroup.path lg @ [ident]);
            sf = \<lparr> destinationArn = arn, filterPattern = pattern, roleArn = role \<rparr>
        in Inr (st(ref := lg\<lparr> children := children lg @ [(ident, SubscriptionFilterChild sf)] \<rparr>)))"

record Bucket =
  path :: path
  removalPolicy :: "RemovalPolicy option"
  autoDeleteObjects :: "bool option"

definition Bucket_bucketArn :: "Bucket \<Rightarrow> cfn" where
  "Bucket_bucketArn b = GetAtt (Bucket.path b) ''Arn''"

record LogStream =
  path :: path
  logGroup :: LogGroup
  logStreamName :: string
  removalPolicy :: "RemovalPolicy option"

text \<open>The attribute \<open>logStreamName\<close> of the construct is the reference to the resource.\<close>

definition LogStream_logStreamName :: "LogStream \<Rightarrow> cfn" where
  "LogStream_logStreamName ls = Ref (LogStream.path ls)"

record Function =
  path :: path
  timeout :: nat
  code :: "string list"
  handler :: string
  runtime :: Runtime

definition Function_functionArn :: "Function \<Rightarrow> cfn" where
  "Function_functionArn f = GetAtt (Function.path f) ''Arn''"

record PolicyStatement =
  resources :: "cfn list"
  actions :: "string list"

record Role =
  path :: path
  assumedBy :: string
  inlinePolicies :: "(string \<times> PolicyStatement list) list"
  defaultPolicy :: "PolicyStatement list"

definition Role_roleArn :: "Role \<Rightarrow> cfn" where
  "Role_roleArn r = GetAtt (Role.path r) ''Arn''"

text \<open>
  The three grants add a statement to the default policy of the role; the statements are
  those of the expected \<open>AWS::IAM::Policy\<close> of the test.
\<close>

definition Bucket_grantWrite :: "Bucket \<Rightarrow> Role \<Rightarrow> Role" where
  "Bucket_grantWrite b r =
     r\<lparr> defaultPolicy := defaultPolicy r @
       [\<lparr> resources = [Bucket_bucketArn b, Join [Bucket_bucketArn b, Lit ''/*'']],
          actions = [''s3:DeleteObject*'', ''s3:PutObject'', ''s3:PutObjectLegalHold'',
                     ''s3:PutObjectRetention'', ''s3:PutObjectTagging'',
                     ''s3:PutObjectVersionTagging'', ''s3:Abort*''] \<rparr>] \<rparr>"

definition Function_grantInvoke :: "Function \<Rightarrow> Role \<Rightarrow> Role" where
  "Function_grantInvoke f r =
     r\<lparr> defaultPolicy := defaultPolicy r @
       [\<lparr> resources = [Function_functionArn f, Join [Function_functionArn f, Lit '':*'']],
          actions = [''lambda:InvokeFunction''] \<rparr>] \<rparr>"

definition LogGroup_grantWrite :: "LogGroup \<Rightarrow> Role \<Rightarrow> Role" where
  "LogGroup_grantWrite lg r =
     r\<lparr> defaultPolicy := defaultPolicy r @
       [\<lparr> resources = [LogGroup_logGroupArn lg],
          actions = [''logs:CreateLogStream'', ''logs:PutLogEvents''] \<rparr>] \<rparr>"

text \<open>The properties of the delivery stream resource.\<close>

record KinesisStreamSourceConfiguration =
  kinesisStreamArn :: cfn
  roleArn :: cfn

record CloudWatchLoggingOptions =
  logGroupName :: cfn
  logStreamName :: cfn
  enabled :: bool

record ProcessorParameter =
  parameterName :: string
  parameterValue :: cfn

record Processor =
  type :: string
  parameters :: "ProcessorParameter list"

record ProcessingConfiguration =
  enabled :: bool
  processors :: "Processor list"

record S3Configuration =
  bucketArn :: cfn
  roleArn :: cfn

record SplunkDestinationConfiguration =
  cloudWatchLoggingOptions :: CloudWatchLoggingOptions
  processingConfiguration :: ProcessingConfiguration
  hecEndpoint :: string
  hecEndpointType :: string
  hecToken :: cfn
  s3Configuration :: S3Configuration

record CfnDeliveryStream =
  path :: path
  deliveryStreamType :: string
  kinesisStreamSourceConfiguration :: KinesisStreamSourceConfiguration
  splunkDestinationConfiguration :: SplunkDestinationConfiguration
  dependsOn :: "path list"

definition addDependsOn :: "CfnDeliveryStream \<Rightarrow> path \<Rightarrow> CfnDeliveryStream" where
  "addDependsOn r target = r\<lparr> dependsOn := dependsOn r @ [target] \<rparr>"

subsection \<open>The construct\<close>

record CloudWatchToSplunkProps =
  logGroups :: "nat list"
  hecEndpoint :: string
  hecToken :: SecretValue

text \<open>What the constructor has created when it returns.\<close>

record CloudWatchToSplunk =
  ingestStream :: Stream
  backupBucket :: Bucket
  kinesisDeliveryStreamLogs :: LogGroup
  kinesisErrorsLogStream :: LogStream
  cloudwatchTransformer :: Function
  deliveryStreamRole :: Role
  splunkDeliveryStream :: CfnDeliveryStream

text \<open>
  \<open>props.logGroups.forEach(logGroup => logGroup.addSubscriptionFilter('kinesis', ...))\<close>:
  the log groups are visited in order, and an exception ends the loop.
\<close>

fun forEach_logGroup :: "Stream \<Rightarrow> nat list \<Rightarrow> store \<Rightarrow> cdk_error + store" where
  "forEach_logGroup stream [] st = Inr st"
| "forEach_logGroup stream (lg # rest) st =
     (case addSubscriptionFilter st lg ''kinesis'' (KinesisDestination stream)
             FilterPattern_allEvents of
        Inl e \<Rightarrow> Inl e
      | Inr st' \<Rightarrow> forEach_logGroup stream rest st')"

definition new_CloudWatchToSplunk ::
    "store \<Rightarrow> path \<Rightarrow> string \<Rightarrow> CloudWatchToSplunkProps \<Rightarrow> cdk_error + store \<times> CloudWatchToSplunk" where
  "new_CloudWatchToSplunk st scope ident props =
     (let this = scope @ [ident];
          ingestStream =
            \<lparr> Stream.path = this @ [''IngestStream''], streamMode = Some ON_DEMAND,
              shardCount = None, retentionPeriod = None \<rparr>
      in case forEach_logGroup ingestStream (logGroups props) st of
           Inl e \<Rightarrow> Inl e
         | Inr st' \<Rightarrow>
            (let backupBucket =
                   \<lparr> Bucket.path = this @ [''BackupBucket''],
                     Bucket.removalPolicy = Some DESTROY, autoDeleteObjects = Some True \<rparr>;
                 kinesisDeliveryStreamLogs =
                   \<lparr> LogGroup.path = this @ [''KinesisDeliveryStreamLogs''],
                     LogGroup.removalPolicy = Some DESTROY, retention = Some ONE_DAY,
                     children = [(''Resource'', OtherChild)] \<rparr>;
                 kinesisErrorsLogStream =
                   \<lparr> LogStream.path = this @ [''KinesisErrorLogStream''],
                     logGroup = kinesisDeliveryStreamLogs, LogStream.logStreamName = ''errors'',
                     LogStream.removalPolicy = Some DESTROY \<rparr>;
                 cloudwatchTransformer =
                   \<lparr> Function.path = this @ [''CloudWatchTransformer''],
                     timeout = Duration_minutes 5,
                     code = [''..'', ''lambda'', ''cloudwatch-log-group-processor''],
                     handler = ''cloudwatch-log-group-processor.handler'',
                     runtime = NODEJS_14_X \<rparr>;
                 deliveryStreamRole =
                   \<lparr> Role.path = this @ [''DeliveryStreamRole''],
                     assumedBy = ''firehose.amazonaws.com'',
                     inlinePolicies =
                       [(''Ingest'',
                         [\<lparr> resources = [Stream_streamArn ingestStream],
                            actions = [''kinesis:DescribeStream'', ''kinesis:GetShardIterator'',
                                       ''kinesis:GetRecords''] \<rparr>])],
                     defaultPolicy = [] \<rparr>;
                 deliveryStreamRole = Bucket_grantWrite backupBucket deliveryStreamRole;
                 deliveryStreamRole = Function_grantInvoke cloudwatchTransformer deliveryStreamRole;
                 deliveryStreamRole = LogGroup_grantWrite kinesisDeliveryStreamLogs deliveryStreamRole;
                 splunkDeliveryStream =
                   \<lparr> CfnDeliveryStream.path = this @ [''DeliveryStream''],
                     deliveryStreamType = ''KinesisStreamAsSource'',
                     kinesisStreamSourceConfiguration =
                       \<lparr> kinesisStreamArn = Stream_streamArn ingestStream,
                         KinesisStreamSourceConfiguration.roleArn = Role_roleArn deliveryStreamRole \<rparr>,
                     splunkDestinationConfiguration =
                       \<lparr> cloudWatchLoggingOptions =
                           \<lparr> CloudWatchLoggingOptions.logGroupName =
                               LogGroup_logGroupName kinesisDeliveryStreamLogs,
                             CloudWatchLoggingOptions.logStreamName =
                               LogStream_logStreamName kinesisErrorsLogStream,
                             CloudWatchLoggingOptions.enabled = True \<rparr>,
                         processingConfiguration =
                           \<lparr> ProcessingConfiguration.enabled = True,
                             processors =
                               [\<lparr> type = ''Lambda'',
                                  parameters =
                                    [\<lparr> parameterName = ''LambdaArn'',
                                       parameterValue = Function_functionArn cloudwatchTransformer \<rparr>,
                                     \<lparr> parameterName = ''RoleArn'',
                                       parameterValue = Role_roleArn deliveryStreamRole \<rparr>] \<rparr>] \<rparr>,
                         SplunkDestinationConfiguration.hecEndpoint =
                           CloudWatchToSplunkProps.hecEndpoint props,
                         hecEndpointType = ''Raw'',
                         SplunkDestinationConfiguration.hecToken =
                           SecretValue_toString (CloudWatchToSplunkProps.hecToken props),
                         s3Configuration =
                           \<lparr> S3Configuration.bucketArn = Bucket_bucketArn backupBucket,
                             S3Configuration.roleArn = Role_roleArn deliveryStreamRole \<rparr> \<rparr>,
                     dependsOn = [] \<rparr>;
                 splunkDeliveryStream =
                   addDependsOn splunkDeliveryStream (Role.path deliveryStreamRole @ [''Resource''])
             in Inr (st',
                  \<lparr> ingestStream = ingestStream, backupBucket = backupBucket,
                    kinesisDeliveryStreamLogs = kinesisDeliveryStreamLogs,
                    kinesisErrorsLogStream = kinesisErrorsLogStream,
                    cloudwatchTransformer = cloudwatchTransformer,
                    deliveryStreamRole = deliveryStreamRole,
                    splunkDeliveryStream = splunkDeliveryStream \<rparr>)))"

section \<open>constructs/SplunkService.ts and the stack\<close>

text \<open>
  \<open>SplunkService\<close> creates the secret \<open>SplunkHECTokenSecret\<close> from the text of
  the token, and exposes \<open>splunkHecToken.secretValue\<close> as its \<open>hecToken\<close>: the
  value of that secret, which is a reference to Secrets Manager.
\<close>

definition SplunkHECTokenSecret_secretString :: string where
  "SplunkHECTokenSecret_secretString = ''648e84f8-5c88-4add-a34d-86207c5f6649''"

definition Secret_secretValue :: "path \<Rightarrow> SecretValue" where
  "Secret_secretValue secret = secretsManager (Ref secret)"

definition SplunkService_hecToken :: "path \<Rightarrow> string \<Rightarrow> SecretValue" where
  "SplunkService_hecToken scope ident = Secret_secretValue (scope @ [ident, ''SplunkHECTokenSecret''])"

definition SPLUNK_HEC_PORT :: string where
  "SPLUNK_HEC_PORT = ''8088''"

text \<open>
  The stack creates one log group and passes it to the construct, with the token of the
  Splunk service; \<open>zoneName\<close> is the name of the hosted zone that the lookup returns.
\<close>

definition stack_logGroup :: LogGroup where
  "stack_logGroup =
     \<lparr> LogGroup.path = [''CloudwatchLogsToSplunkStack'', ''LogGroup''],
       LogGroup.removalPolicy = Some DESTROY, retention = Some ONE_DAY,
       children = [(''Resource'', OtherChild)] \<rparr>"

definition stack_props :: "string \<Rightarrow> CloudWatchToSplunkProps" where
  "stack_props zoneName =
     \<lparr> logGroups = [0],
       CloudWatchToSplunkProps.hecEndpoint = ''https://splunk.'' @ zoneName @ '':'' @ SPLUNK_HEC_PORT,
       CloudWatchToSplunkProps.hecToken =
         SplunkService_hecToken [''CloudwatchLogsToSplunkStack''] ''SplunkService'' \<rparr>"

definition stack_CloudWatchToSplunk :: "string \<Rightarrow> cdk_error + store \<times> CloudWatchToSplunk" where
  "stack_CloudWatchToSplunk zoneName =
     new_CloudWatchToSplunk (\<lambda>_. stack_logGroup) [''CloudwatchLogsToSplunkStack'']
       ''CloudWatchToSplunk'' (stack_props zoneName)"

section \<open>test/CloudWatchToSplunk.test.ts\<close>

text \<open>
  The test creates a stack without an id (its path is \<open>Default\<close>), a log group without
  properties and the construct.
\<close>

definition test_logGroup :: LogGroup where
  "test_logGroup =
     \<lparr> LogGroup.path = [''Default'', ''LogGroup''],
       LogGroup.removalPolicy = None, retention = None,
       children = [(''Resource'', OtherChild)] \<rparr>"

definition test_props :: CloudWatchToSplunkProps where
  "test_props =
     \<lparr> logGroups = [0],
       CloudWatchToSplunkProps.hecEndpoint = ''https://my-endpoint:8088'',
       CloudWatchToSplunkProps.hecToken = plainText ''value'' \<rparr>"

definition test_CloudWatchToSplunk :: "cdk_error + store \<times> CloudWatchToSplunk" where
  "test_CloudWatchToSplunk =
     new_CloudWatchToSplunk (\<lambda>_. test_logGroup) [''Default''] ''CloudWatchToSplunk'' test_props"

section \<open>Properties the specification names\<close>

text \<open>An endpoint that uses TLS: its URL has the scheme \<open>https\<close>.\<close>

definition is_https :: "string \<Rightarrow> bool" where
  "is_https url = (take 8 url = ''https://'')"

text \<open>
  A template value that is a dynamic reference to a secret of Secrets Manager, which
  CloudFormation replaces by the secret at deployment.
\<close>

fun dynamic_reference :: "cfn \<Rightarrow> bool" where
  "dynamic_reference (Lit s) = (take 25 s = ''{{resolve:secretsmanager:'')"
| "dynamic_reference (Join (Lit s # rest)) = (take 25 s = ''{{resolve:secretsmanager:'')"
| "dynamic_reference _ = False"

text \<open>
  A bucket whose objects the system never deletes: removing the bucket from the stack
  must not empty it.
\<close>

definition objects_retained :: "Bucket \<Rightarrow> bool" where
  "objects_retained b = (autoDeleteObjects b \<noteq> Some True)"

text \<open>The subscription filter that the construct attaches to a log group.\<close>

definition kinesis_filter :: "Stream \<Rightarrow> LogGroup \<Rightarrow> string \<times> child" where
  "kinesis_filter stream lg =
     (''kinesis'',
      SubscriptionFilterChild
        \<lparr> destinationArn = Stream_streamArn stream, filterPattern = [],
          roleArn = GetAtt (LogGroup.path lg @ [''kinesis'', ''CloudWatchLogsCanPutRecords'']) ''Arn'' \<rparr>)"

section \<open>The pattern of checkIfValidIP accepts the canonical dotted quads\<close>

lemma class_has_iff:
  "class_has lo n cu \<longleftrightarrow> (\<exists>a. lo \<le> a \<and> a < lo + n \<and> canonicalize a = cu)"
proof (induction n arbitrary: lo)
  case 0
  then show ?case by simp
next
  case (Suc n)
  show ?case
  proof
    assume "class_has lo (Suc n) cu"
    then consider "canonicalize lo = cu" | "class_has (Suc lo) n cu" by auto
    then show "\<exists>a. lo \<le> a \<and> a < lo + Suc n \<and> canonicalize a = cu"
    proof cases
      case 1
      then show ?thesis by (intro exI[of _ lo]) simp
    next
      case 2
      then obtain a where "Suc lo \<le> a" "a < Suc lo + n" "canonicalize a = cu"
        using Suc.IH by blast
      then show ?thesis by (intro exI[of _ a]) simp
    qed
  next
    assume "\<exists>a. lo \<le> a \<and> a < lo + Suc n \<and> canonicalize a = cu"
    then obtain a where a: "lo \<le> a" "a < lo + Suc n" "canonicalize a = cu" by blast
    show "class_has lo (Suc n) cu"
    proof (cases "a = lo")
      case True
      with a show ?thesis by simp
    next
      case False
      with a have "Suc lo \<le> a" "a < Suc lo + n" by simp_all
      with a(3) have "class_has (Suc lo) n cu" using Suc.IH by blast
      then show ?thesis by simp
    qed
  qed
qed

lemma cls_match_below_letters:
  assumes "of_char lo \<le> (of_char hi :: nat)" "(of_char hi :: nat) < 65"
  shows "cls_match lo hi x \<longleftrightarrow> of_char lo \<le> x \<and> x \<le> of_char hi"
proof -
  define L H X :: nat where "L = of_char lo" and "H = of_char hi" and "X = x"
  have LH: "L \<le> H" "H < 65" using assms by (simp_all add: L_def H_def)
  have small: "\<And>a. a < 65 \<Longrightarrow> canonicalize a = a" by (simp add: canonicalize_def)
  have canonX: "canonicalize X < 65 \<longleftrightarrow> X < 65" "X < 65 \<Longrightarrow> canonicalize X = X"
    unfolding canonicalize_def by (simp_all, arith)
  have "cls_match lo hi x \<longleftrightarrow> (\<exists>a. L \<le> a \<and> a < L + (Suc H - L) \<and> canonicalize a = canonicalize X)"
    by (simp add: cls_match_def class_has_iff L_def H_def X_def)
  also have "\<dots> \<longleftrightarrow> (\<exists>a. L \<le> a \<and> a \<le> H \<and> a = canonicalize X)"
  proof -
    have "\<And>a. (L \<le> a \<and> a < L + (Suc H - L) \<and> canonicalize a = canonicalize X) \<longleftrightarrow>
               (L \<le> a \<and> a \<le> H \<and> a = canonicalize X)"
    proof -
      fix a
      show "(L \<le> a \<and> a < L + (Suc H - L) \<and> canonicalize a = canonicalize X) \<longleftrightarrow>
            (L \<le> a \<and> a \<le> H \<and> a = canonicalize X)"
      proof (cases "a \<le> H")
        case True
        then have "a < 65" using LH by simp
        then have "canonicalize a = a" by (rule small)
        with True LH show ?thesis by auto
      next
        case False
        with LH show ?thesis by auto
      qed
    qed
    then show ?thesis by simp
  qed
  also have "\<dots> \<longleftrightarrow> L \<le> canonicalize X \<and> canonicalize X \<le> H" by blast
  also have "\<dots> \<longleftrightarrow> L \<le> X \<and> X \<le> H"
  proof (cases "X < 65")
    case True
    then show ?thesis by (simp add: canonX(2))
  next
    case False
    then have "\<not> canonicalize X < 65" by (simp add: canonX(1))
    with False LH show ?thesis by simp
  qed
  finally show ?thesis by (simp add: L_def H_def X_def)
qed

lemma chr_match_below_letters:
  assumes "(of_char c :: nat) < 65"
  shows "chr_match c x \<longleftrightarrow> x = of_char c"
  using assms unfolding chr_match_def canonicalize_def by (auto split: if_splits)

lemma single_char_split:
  "(\<exists>u v. s = u @ v \<and> (\<exists>x. u = [x] \<and> P x) \<and> K (i + length u) v) \<longleftrightarrow>
   (case s of [] \<Rightarrow> False | x # xs \<Rightarrow> P x \<and> K (Suc i) xs)"
proof (cases s)
  case Nil
  then show ?thesis by simp
next
  case (Cons x xs)
  have "(\<exists>u v. x # xs = u @ v \<and> (\<exists>y. u = [y] \<and> P y) \<and> K (i + length u) v) \<longleftrightarrow>
        P x \<and> K (Suc i) xs"
  proof
    assume "\<exists>u v. x # xs = u @ v \<and> (\<exists>y. u = [y] \<and> P y) \<and> K (i + length u) v"
    then obtain y v where "x # xs = [y] @ v" "P y" "K (i + length [y]) v" by blast
    then show "P x \<and> K (Suc i) xs" by simp
  next
    assume h: "P x \<and> K (Suc i) xs"
    show "\<exists>u v. x # xs = u @ v \<and> (\<exists>y. u = [y] \<and> P y) \<and> K (i + length u) v"
      by (rule exI[of _ "[x]"], rule exI[of _ xs]) (use h in simp)
  qed
  with Cons show ?thesis by simp
qed

lemma concat_split:
  "(\<exists>u v. s = u @ v \<and> u \<in> A \<and> (\<exists>u' v'. v = u' @ v' \<and> u' \<in> B \<and> K (i + length u + length u') v')) \<longleftrightarrow>
   (\<exists>w v'. s = w @ v' \<and> w \<in> {u @ v | u v. u \<in> A \<and> v \<in> B} \<and> K (i + length w) v')"
  (is "?L \<longleftrightarrow> ?R")
proof
  assume ?L
  then obtain u u' v' where h: "s = u @ u' @ v'" "u \<in> A" "u' \<in> B" "K (i + length u + length u') v'"
    by blast
  have "s = (u @ u') @ v'" "u @ u' \<in> {u @ v | u v. u \<in> A \<and> v \<in> B}" "K (i + length (u @ u')) v'"
    using h by (auto simp: add.assoc)
  then show ?R by blast
next
  assume ?R
  then obtain u u' v' where h: "s = (u @ u') @ v'" "u \<in> A" "u' \<in> B" "K (i + length (u @ u')) v'"
    by blast
  have "s = u @ (u' @ v')" "K (i + length u + length u') v'"
    using h by (simp_all add: add.assoc)
  with h(2,3) show ?L by blast
qed

lemma matcher_lang:
  "plain r \<Longrightarrow> matcher r i s k \<longleftrightarrow> (\<exists>u v. s = u @ v \<and> u \<in> lang r \<and> k (i + length u) v)"
proof (induction r i s k rule: matcher.induct)
  case (1 c i s k)
  show ?case by (simp add: single_char_split)
next
  case (2 lo hi i s k)
  show ?case by (simp add: single_char_split)
next
  case (3 i s k)
  then show ?case by simp
next
  case (4 i s k)
  then show ?case by simp
next
  case (5 a b i s k)
  then have pa: "plain a" and pb: "plain b" by simp_all
  have A: "matcher a i s (\<lambda>j t. matcher b j t k) \<longleftrightarrow>
        (\<exists>u v. s = u @ v \<and> u \<in> lang a \<and> matcher b (i + length u) v k)"
    by (rule "5.IH"(2)[OF pa])
  have B: "\<And>j t. matcher b j t k \<longleftrightarrow> (\<exists>u v. t = u @ v \<and> u \<in> lang b \<and> k (j + length u) v)"
    by (rule "5.IH"(1)[OF pb])
  have "matcher (Seq a b) i s k \<longleftrightarrow> matcher a i s (\<lambda>j t. matcher b j t k)"
    by simp
  also note A
  also have "(\<exists>u v. s = u @ v \<and> u \<in> lang a \<and> matcher b (i + length u) v k) \<longleftrightarrow>
      (\<exists>u v. s = u @ v \<and> u \<in> lang a \<and>
         (\<exists>u' v'. v = u' @ v' \<and> u' \<in> lang b \<and> k (i + length u + length u') v'))"
    unfolding B ..
  also note concat_split
  finally show ?case by simp
next
  case (6 a b i s k)
  then show ?case by auto
next
  case (7 r i s k)
  then show ?case by simp
next
  case (8 n r i s k)
  then have pr: "plain r" and pn: "plain (Rep n r)" by simp_all
  have A: "matcher r i s (\<lambda>j t. matcher (Rep n r) j t k) \<longleftrightarrow>
        (\<exists>u v. s = u @ v \<and> u \<in> lang r \<and> matcher (Rep n r) (i + length u) v k)"
    by (rule "8.IH"(2)[OF pr])
  have B: "\<And>j t. matcher (Rep n r) j t k \<longleftrightarrow>
        (\<exists>u v. t = u @ v \<and> u \<in> lang (Rep n r) \<and> k (j + length u) v)"
    by (rule "8.IH"(1)[OF pn])
  have "matcher (Rep (Suc n) r) i s k \<longleftrightarrow> matcher r i s (\<lambda>j t. matcher (Rep n r) j t k)"
    by simp
  also note A
  also have "(\<exists>u v. s = u @ v \<and> u \<in> lang r \<and> matcher (Rep n r) (i + length u) v k) \<longleftrightarrow>
      (\<exists>u v. s = u @ v \<and> u \<in> lang r \<and>
         (\<exists>u' v'. v = u' @ v' \<and> u' \<in> lang (Rep n r) \<and> k (i + length u + length u') v'))"
    unfolding B ..
  also note concat_split
  finally show ?case by simp
qed

lemma digit_class [simp]: "cls_match CHR ''0'' CHR ''9'' x \<longleftrightarrow> is_digit x"
  by (simp add: cls_match_below_letters is_digit_def)

lemma class_19 [simp]: "cls_match CHR ''1'' CHR ''9'' x \<longleftrightarrow> 49 \<le> x \<and> x \<le> 57"
  by (simp add: cls_match_below_letters)

lemma class_04 [simp]: "cls_match CHR ''0'' CHR ''4'' x \<longleftrightarrow> 48 \<le> x \<and> x \<le> 52"
  by (simp add: cls_match_below_letters)

lemma class_05 [simp]: "cls_match CHR ''0'' CHR ''5'' x \<longleftrightarrow> 48 \<le> x \<and> x \<le> 53"
  by (simp add: cls_match_below_letters)

lemma chr_1 [simp]: "chr_match CHR ''1'' x \<longleftrightarrow> x = 49"
  by (simp add: chr_match_below_letters)

lemma chr_2 [simp]: "chr_match CHR ''2'' x \<longleftrightarrow> x = 50"
  by (simp add: chr_match_below_letters)

lemma chr_5 [simp]: "chr_match CHR ''5'' x \<longleftrightarrow> x = 53"
  by (simp add: chr_match_below_letters)

lemma chr_dot [simp]: "chr_match CHR ''.'' x \<longleftrightarrow> x = 46"
  by (simp add: chr_match_below_letters)

lemma lang_Rep2: "lang (Rep 2 r) = {u @ v | u v. u \<in> lang r \<and> v \<in> lang r}"
  by (simp add: numeral_2_eq_2)

lemma head_split:
  "(\<exists>ua v. u = ua @ v \<and> (\<exists>x. ua = [x] \<and> P x) \<and> Q v) \<longleftrightarrow> (\<exists>x v. u = x # v \<and> P x \<and> Q v)"
  (is "?L \<longleftrightarrow> ?R")
proof
  assume ?L
  then obtain x v where "u = [x] @ v" "P x" "Q v" by blast
  then show ?R by simp
next
  assume ?R
  then obtain x v where h: "u = x # v" "P x" "Q v" by blast
  then have "u = [x] @ v \<and> (\<exists>y. [x] = [y] \<and> P y) \<and> Q v" by simp
  then show ?L by blast
qed

lemma two_chars:
  "(\<exists>ua v. u = ua @ v \<and> (\<exists>x. ua = [x] \<and> P x) \<and> (\<exists>x. v = [x] \<and> Q x)) \<longleftrightarrow>
   (\<exists>x y. u = [x, y] \<and> P x \<and> Q y)"
  unfolding head_split by auto

lemma three_chars:
  "(\<exists>ua v. u = ua @ v \<and> (\<exists>x. ua = [x] \<and> P x) \<and> (\<exists>x y. v = [x, y] \<and> Q x y)) \<longleftrightarrow>
   (\<exists>x y z. u = [x, y, z] \<and> P x \<and> Q y z)"
  unfolding head_split by auto

lemma lang_octetExp: "u \<in> lang octetExp \<longleftrightarrow> octet_shape u"
  unfolding octetExp_def octet_shape_def lang.simps(1,2,5,6) lang_Rep2 mem_Collect_eq Un_iff
    two_chars three_chars
  by simp

lemma dec_val_lower: "a * 10 ^ length xs \<le> foldl (\<lambda>a x. 10 * a + (x - 48)) (a::nat) xs"
proof (induction xs arbitrary: a)
  case Nil
  then show ?case by simp
next
  case (Cons x xs)
  have "a * 10 ^ length (x # xs) \<le> (10 * a + (x - 48)) * 10 ^ length xs"
    by (simp add: algebra_simps)
  also have "\<dots> \<le> foldl (\<lambda>a x. 10 * a + (x - 48)) (10 * a + (x - 48)) xs"
    by (rule Cons.IH)
  finally show ?case by simp
qed

lemma four_digits_large:
  assumes "49 \<le> x"
  shows "1000 \<le> dec_val (x # y # z # w # rest)"
proof -
  have "(1::nat) * 10 ^ 3 \<le> (x - 48) * 10 ^ length (y # z # w # rest)"
    using assms by (intro mult_le_mono power_increasing) simp_all
  also have "\<dots> \<le> foldl (\<lambda>a x. 10 * a + (x - 48)) (x - 48) (y # z # w # rest)"
    by (rule dec_val_lower)
  finally show ?thesis by (simp add: dec_val_def)
qed

lemma octet_shape_canonical: "octet_shape u \<longleftrightarrow> octet_canonical u"
proof (cases u)
  case Nil
  then show ?thesis by (simp add: octet_shape_def octet_canonical_def octet_in_range_def)
next
  case c1: (Cons x u1)
  show ?thesis
  proof (cases u1)
    case Nil
    with c1 show ?thesis
      by (auto simp: octet_shape_def octet_canonical_def octet_in_range_def dec_val_def is_digit_def)
  next
    case c2: (Cons y u2)
    show ?thesis
    proof (cases u2)
      case Nil
      with c1 c2 show ?thesis
        by (auto simp: octet_shape_def octet_canonical_def octet_in_range_def dec_val_def is_digit_def)
    next
      case c3: (Cons z u3)
      show ?thesis
      proof (cases u3)
        case Nil
        with c1 c2 c3 show ?thesis
          unfolding octet_shape_def octet_canonical_def octet_in_range_def dec_val_def is_digit_def
          by simp arith
      next
        case c4: (Cons w u4)
        have "\<not> octet_shape u" using c1 c2 c3 c4 by (simp add: octet_shape_def)
        moreover have "\<not> octet_canonical u"
        proof
          assume oc: "octet_canonical u"
          then have "49 \<le> x"
            using c1 c2 by (auto simp: octet_canonical_def octet_in_range_def is_digit_def)
          then have "1000 \<le> dec_val u" unfolding c1 c2 c3 c4 by (rule four_digits_large)
          with oc show False by (simp add: octet_canonical_def octet_in_range_def)
        qed
        ultimately show ?thesis by simp
      qed
    qed
  qed
qed

lemma lang_octetExp_canonical: "u \<in> lang octetExp \<longleftrightarrow> octet_canonical u"
  by (simp add: lang_octetExp octet_shape_canonical)

lemma plain_octetExp: "plain octetExp"
  by (simp add: octetExp_def)

lemma lang_octet_dot:
  "w \<in> lang (Seq octetExp (Chr CHR ''.'')) \<longleftrightarrow> (\<exists>a. w = a @ [46] \<and> octet_canonical a)"
  by (auto simp: lang_octetExp_canonical)

lemma lang_three_octets:
  "w \<in> lang (Rep 3 (Seq octetExp (Chr CHR ''.''))) \<longleftrightarrow>
   (\<exists>a b c. w = a @ [46] @ b @ [46] @ c @ [46] \<and>
      octet_canonical a \<and> octet_canonical b \<and> octet_canonical c)"
proof -
  let ?X = "Seq octetExp (Chr CHR ''.'')"
  have "w \<in> lang (Rep 3 ?X) \<longleftrightarrow>
        (\<exists>u1 u2 u3. w = u1 @ u2 @ u3 \<and> u1 \<in> lang ?X \<and> u2 \<in> lang ?X \<and> u3 \<in> lang ?X)"
    unfolding numeral_3_eq_3 lang.simps(7,8) by blast
  also have "\<dots> \<longleftrightarrow> (\<exists>a b c. w = a @ [46] @ b @ [46] @ c @ [46] \<and>
      octet_canonical a \<and> octet_canonical b \<and> octet_canonical c)"
    unfolding lang_octet_dot
  proof
    assume "\<exists>u1 u2 u3. w = u1 @ u2 @ u3 \<and> (\<exists>a. u1 = a @ [46] \<and> octet_canonical a) \<and>
      (\<exists>a. u2 = a @ [46] \<and> octet_canonical a) \<and> (\<exists>a. u3 = a @ [46] \<and> octet_canonical a)"
    then obtain a b c where "w = (a @ [46]) @ (b @ [46]) @ (c @ [46])"
      "octet_canonical a" "octet_canonical b" "octet_canonical c" by blast
    then have "w = a @ [46] @ b @ [46] @ c @ [46] \<and>
      octet_canonical a \<and> octet_canonical b \<and> octet_canonical c" by simp
    then show "\<exists>a b c. w = a @ [46] @ b @ [46] @ c @ [46] \<and>
      octet_canonical a \<and> octet_canonical b \<and> octet_canonical c" by blast
  next
    assume "\<exists>a b c. w = a @ [46] @ b @ [46] @ c @ [46] \<and>
      octet_canonical a \<and> octet_canonical b \<and> octet_canonical c"
    then obtain a b c where h: "w = a @ [46] @ b @ [46] @ c @ [46]"
      "octet_canonical a" "octet_canonical b" "octet_canonical c" by blast
    from h(1) have "w = (a @ [46]) @ (b @ [46]) @ (c @ [46])" by simp
    with h(2-4) show "\<exists>u1 u2 u3. w = u1 @ u2 @ u3 \<and> (\<exists>a. u1 = a @ [46] \<and> octet_canonical a) \<and>
      (\<exists>a. u2 = a @ [46] \<and> octet_canonical a) \<and> (\<exists>a. u3 = a @ [46] \<and> octet_canonical a)"
      by blast
  qed
  finally show ?thesis .
qed

lemma matcher_regexExp:
  "matcher regexExp i s (\<lambda>_ _. True) \<longleftrightarrow>
   i = 0 \<and> (\<exists>a b c d. s = a @ [46] @ b @ [46] @ c @ [46] @ d \<and>
      octet_canonical a \<and> octet_canonical b \<and> octet_canonical c \<and> octet_canonical d)"
proof -
  let ?X = "Seq octetExp (Chr CHR ''.'')"
  have p3: "plain (Rep 3 ?X)" by (simp add: plain_octetExp)
  have tail: "\<And>j t. matcher octetExp j t (\<lambda>j' t'. t' = [] \<and> True) \<longleftrightarrow> octet_canonical t"
    by (simp add: matcher_lang[OF plain_octetExp] lang_octetExp_canonical)
  have "matcher regexExp i s (\<lambda>_ _. True) \<longleftrightarrow>
        i = 0 \<and> matcher (Rep 3 ?X) i s (\<lambda>j t. matcher octetExp j t (\<lambda>j' t'. t' = [] \<and> True))"
    by (simp add: regexExp_def)
  also have "\<dots> \<longleftrightarrow> i = 0 \<and> (\<exists>u v. s = u @ v \<and> u \<in> lang (Rep 3 ?X) \<and> octet_canonical v)"
    unfolding tail matcher_lang[OF p3] ..
  also have "\<dots> \<longleftrightarrow> i = 0 \<and> (\<exists>a b c d. s = a @ [46] @ b @ [46] @ c @ [46] @ d \<and>
      octet_canonical a \<and> octet_canonical b \<and> octet_canonical c \<and> octet_canonical d)"
  proof -
    have "(\<exists>u v. s = u @ v \<and> u \<in> lang (Rep 3 ?X) \<and> octet_canonical v) \<longleftrightarrow>
      (\<exists>a b c d. s = a @ [46] @ b @ [46] @ c @ [46] @ d \<and>
        octet_canonical a \<and> octet_canonical b \<and> octet_canonical c \<and> octet_canonical d)"
      unfolding lang_three_octets
    proof
      assume "\<exists>u v. s = u @ v \<and> (\<exists>a b c. u = a @ [46] @ b @ [46] @ c @ [46] \<and>
        octet_canonical a \<and> octet_canonical b \<and> octet_canonical c) \<and> octet_canonical v"
      then obtain a b c d where "s = (a @ [46] @ b @ [46] @ c @ [46]) @ d"
        "octet_canonical a" "octet_canonical b" "octet_canonical c" "octet_canonical d" by blast
      then have "s = a @ [46] @ b @ [46] @ c @ [46] @ d \<and>
        octet_canonical a \<and> octet_canonical b \<and> octet_canonical c \<and> octet_canonical d" by simp
      then show "\<exists>a b c d. s = a @ [46] @ b @ [46] @ c @ [46] @ d \<and>
        octet_canonical a \<and> octet_canonical b \<and> octet_canonical c \<and> octet_canonical d" by blast
    next
      assume "\<exists>a b c d. s = a @ [46] @ b @ [46] @ c @ [46] @ d \<and>
        octet_canonical a \<and> octet_canonical b \<and> octet_canonical c \<and> octet_canonical d"
      then obtain a b c d where h: "s = a @ [46] @ b @ [46] @ c @ [46] @ d"
        "octet_canonical a" "octet_canonical b" "octet_canonical c" "octet_canonical d" by blast
      from h(1) have "s = (a @ [46] @ b @ [46] @ c @ [46]) @ d" by simp
      with h(2-5) show "\<exists>u v. s = u @ v \<and> (\<exists>a b c. u = a @ [46] @ b @ [46] @ c @ [46] \<and>
        octet_canonical a \<and> octet_canonical b \<and> octet_canonical c) \<and> octet_canonical v"
        by blast
    qed
    then show ?thesis by simp
  qed
  finally show ?thesis .
qed

lemma exec_from_later: "0 < i \<Longrightarrow> \<not> exec_from regexExp i s"
  by (induction s arbitrary: i) (simp_all add: matcher_regexExp)

lemma test_regexExp:
  "test regexExp s \<longleftrightarrow>
   (\<exists>a b c d. s = a @ [46] @ b @ [46] @ c @ [46] @ d \<and>
      octet_canonical a \<and> octet_canonical b \<and> octet_canonical c \<and> octet_canonical d)"
proof (cases s)
  case Nil
  then show ?thesis by (simp add: test_def matcher_regexExp)
next
  case (Cons x xs)
  have "\<not> exec_from regexExp (Suc 0) xs" by (rule exec_from_later) simp
  then show ?thesis unfolding Cons test_def by (simp add: matcher_regexExp)
qed

lemma split_on_nonempty: "split_on c s \<noteq> []"
  by (induction s) (auto split: list.splits)

lemma split_on_no_sep: "c \<notin> set p \<Longrightarrow> split_on c p = [p]"
  by (induction p) auto

lemma split_on_append: "c \<notin> set p \<Longrightarrow> split_on c (p @ c # rest) = p # split_on c rest"
  by (induction p) (auto split: list.splits simp: split_on_nonempty)

lemma split_on_single: "split_on c s = [p] \<Longrightarrow> s = p \<and> c \<notin> set p"
proof (induction s arbitrary: p)
  case Nil
  then show ?case by simp
next
  case (Cons x xs)
  show ?case
  proof (cases "x = c")
    case True
    with Cons.prems show ?thesis by (simp add: split_on_nonempty)
  next
    case False
    with Cons.prems obtain p' where "split_on c xs = [p']" "p = x # p'"
      by (auto split: list.splits simp: split_on_nonempty)
    with Cons.IH False show ?thesis by auto
  qed
qed

lemma split_on_more:
  "split_on c s = p # q # ps \<Longrightarrow> \<exists>rest. s = p @ c # rest \<and> split_on c rest = q # ps \<and> c \<notin> set p"
proof (induction s arbitrary: p)
  case Nil
  then show ?case by simp
next
  case (Cons x xs)
  show ?case
  proof (cases "x = c")
    case True
    with Cons.prems show ?thesis by auto
  next
    case False
    with Cons.prems obtain p' where "split_on c xs = p' # q # ps" "p = x # p'"
      by (auto split: list.splits simp: split_on_nonempty)
    with Cons.IH False show ?thesis by auto
  qed
qed

lemma octet_no_dot: "octet_in_range a \<Longrightarrow> 46 \<notin> set a"
  by (auto simp: octet_in_range_def list_all_iff is_digit_def)

lemma split_four:
  "split_on 46 s = [a, b, c, d] \<longleftrightarrow>
   s = a @ [46] @ b @ [46] @ c @ [46] @ d \<and>
   46 \<notin> set a \<and> 46 \<notin> set b \<and> 46 \<notin> set c \<and> 46 \<notin> set d"
proof
  assume h: "split_on 46 s = [a, b, c, d]"
  from split_on_more[OF h] obtain r1 where
    r1: "s = a @ 46 # r1" "split_on 46 r1 = [b, c, d]" "46 \<notin> set a" by blast
  from split_on_more[OF r1(2)] obtain r2 where
    r2: "r1 = b @ 46 # r2" "split_on 46 r2 = [c, d]" "46 \<notin> set b" by blast
  from split_on_more[OF r2(2)] obtain r3 where
    r3: "r2 = c @ 46 # r3" "split_on 46 r3 = [d]" "46 \<notin> set c" by blast
  from split_on_single[OF r3(2)] have r4: "r3 = d" "46 \<notin> set d" by simp_all
  show "s = a @ [46] @ b @ [46] @ c @ [46] @ d \<and>
   46 \<notin> set a \<and> 46 \<notin> set b \<and> 46 \<notin> set c \<and> 46 \<notin> set d"
    using r1 r2 r3 r4 by simp
next
  assume h: "s = a @ [46] @ b @ [46] @ c @ [46] @ d \<and>
   46 \<notin> set a \<and> 46 \<notin> set b \<and> 46 \<notin> set c \<and> 46 \<notin> set d"
  then show "split_on 46 s = [a, b, c, d]"
    by (simp add: split_on_append split_on_no_sep)
qed

lemma dotted_quad_canonical_iff:
  "dotted_quad_canonical s \<longleftrightarrow>
   (\<exists>a b c d. s = a @ [46] @ b @ [46] @ c @ [46] @ d \<and>
      octet_canonical a \<and> octet_canonical b \<and> octet_canonical c \<and> octet_canonical d)"
  (is "?L \<longleftrightarrow> ?R")
proof
  assume ?L
  then obtain a b c d where sp: "split_on 46 s = [a, b, c, d]"
    and oc: "octet_canonical a" "octet_canonical b" "octet_canonical c" "octet_canonical d"
    unfolding dotted_quad_canonical_def by (auto split: list.splits)
  from sp have "s = a @ [46] @ b @ [46] @ c @ [46] @ d" by (simp add: split_four)
  with oc show ?R by blast
next
  assume ?R
  then obtain a b c d where s: "s = a @ [46] @ b @ [46] @ c @ [46] @ d"
    and oc: "octet_canonical a" "octet_canonical b" "octet_canonical c" "octet_canonical d"
    by blast
  have "46 \<notin> set a" "46 \<notin> set b" "46 \<notin> set c" "46 \<notin> set d"
    using oc by (simp_all add: octet_canonical_def octet_no_dot)
  with s have "split_on 46 s = [a, b, c, d]" by (simp add: split_four)
  with oc show ?L by (simp add: dotted_quad_canonical_def)
qed

lemma test_regexExp_dotted_quad: "test regexExp s \<longleftrightarrow> dotted_quad_canonical s"
  by (simp add: test_regexExp dotted_quad_canonical_iff)


section \<open>checkIfValidIP and getPublicIp\<close>

lemma checkIfValidIP_Inr:
  "checkIfValidIP v = Inr w \<longleftrightarrow> w = v \<and> (\<exists>s. js_toString v = Inr s \<and> dotted_quad_canonical s)"
  by (auto simp: checkIfValidIP_def test_regexExp_dotted_quad split: sum.splits)

lemma checkIfValidIP_ok:
  "js_toString v = Inr s \<Longrightarrow> dotted_quad_canonical s \<Longrightarrow> checkIfValidIP v = Inr v"
  by (simp add: checkIfValidIP_def test_regexExp_dotted_quad)

lemma getPublicIp_Inr:
  "getPublicIp fetched = Inr v \<longleftrightarrow>
   (\<exists>response data. fetched = Inr response \<and> json response = Inr data \<and> get_ip data = Inr v \<and>
      (\<exists>s. js_toString v = Inr s \<and> dotted_quad_canonical s))"
  by (auto simp: getPublicIp_def checkIfValidIP_Inr checkIfValidIP_ok split: sum.splits)

text \<open>
  C9, as stated. First, \<open>checkIfValidIP\<close> is said to return its input unchanged if
  and only if the input is a dotted quad whose four octets each lie in 0..255: the string
  \<open>01.2.3.4\<close> is such a dotted quad, its octets being 1, 2, 3 and 4, and
  \<open>checkIfValidIP\<close> throws on it, since the pattern has no alternative for a leading
  zero. Second, \<open>getPublicIp\<close> is said to return a string or throw: for the response
  body \<open>{"ip": ["1.2.3.4"]}\<close> the unchecked cast lets the array through, \<open>test\<close>
  converts it to the string \<open>1.2.3.4\<close>, and \<open>getPublicIp\<close> returns the array.
\<close>

theorem checkIfValidIP_leading_zero_counterexample:
  "dotted_quad_in_range (js ''01.2.3.4'') \<and>
   checkIfValidIP (JStr (js ''01.2.3.4'')) =
     Inl (JsError (js ''Error'') (js ''01.2.3.4 does not look valid.'')) \<and>
   getPublicIp (Inr (Response (Inr (JObj [(js ''ip'', JArr [JStr (js ''1.2.3.4'')])])))) =
     Inr (JArr [JStr (js ''1.2.3.4'')])"
  by code_simp

text \<open>
  C9, as amended. \<open>checkIfValidIP\<close> returns its input string unchanged if and only if
  the input is, as a whole, a dotted quad whose four octets are decimal numerals between 0
  and 255 written without leading zeros; for every other input string it throws the error
  \<open>"<input> does not look valid."\<close>. Whatever \<open>fetch\<close> settles to,
  \<open>getPublicIp\<close> either throws or returns the value of the property \<open>ip\<close> of the
  response body as it is, and the conversion of that value to a string is such a dotted
  quad; so a string that \<open>getPublicIp\<close> returns is such a dotted quad.
\<close>

theorem checkIfValidIP_canonical_dotted_quad:
  "(checkIfValidIP (JStr x) = Inr (JStr x) \<longleftrightarrow> dotted_quad_canonical x) \<and>
   (\<not> dotted_quad_canonical x \<longrightarrow>
      checkIfValidIP (JStr x) = Inl (JsError (js ''Error'') (x @ js '' does not look valid.''))) \<and>
   ((\<exists>e. getPublicIp fetched = Inl e) \<or>
    (\<exists>response data v s.
       fetched = Inr response \<and> json response = Inr data \<and> get_ip data = Inr v \<and>
       getPublicIp fetched = Inr v \<and> js_toString v = Inr s \<and> dotted_quad_canonical s)) \<and>
   (getPublicIp fetched = Inr (JStr y) \<longrightarrow> dotted_quad_canonical y)"
proof -
  have "checkIfValidIP (JStr x) = Inr (JStr x) \<longleftrightarrow> dotted_quad_canonical x"
    by (simp add: checkIfValidIP_Inr)
  moreover have "\<not> dotted_quad_canonical x \<longrightarrow>
      checkIfValidIP (JStr x) = Inl (JsError (js ''Error'') (x @ js '' does not look valid.''))"
    by (simp add: checkIfValidIP_def test_regexExp_dotted_quad)
  moreover have "(\<exists>e. getPublicIp fetched = Inl e) \<or>
    (\<exists>response data v s.
       fetched = Inr response \<and> json response = Inr data \<and> get_ip data = Inr v \<and>
       getPublicIp fetched = Inr v \<and> js_toString v = Inr s \<and> dotted_quad_canonical s)"
  proof (cases "getPublicIp fetched")
    case (Inl e)
    then show ?thesis by blast
  next
    case (Inr v)
    from Inr obtain response data s where
      "fetched = Inr response" "json response = Inr data" "get_ip data = Inr v"
      "js_toString v = Inr s" "dotted_quad_canonical s"
      unfolding getPublicIp_Inr by blast
    with Inr show ?thesis by blast
  qed
  moreover have "getPublicIp fetched = Inr (JStr y) \<longrightarrow> dotted_quad_canonical y"
    by (auto simp: getPublicIp_Inr)
  ultimately show ?thesis by blast
qed

theorem checkIfValidIP_canonical_dotted_quad_witness:
  "dotted_quad_canonical (js ''192.168.0.1'') \<and>
   checkIfValidIP (JStr (js ''192.168.0.1'')) = Inr (JStr (js ''192.168.0.1'')) \<and>
   \<not> dotted_quad_canonical (js ''256.1.1.1'') \<and>
   checkIfValidIP (JStr (js ''256.1.1.1'')) =
     Inl (JsError (js ''Error'') (js ''256.1.1.1 does not look valid.'')) \<and>
   getPublicIp (Inr (Response (Inr (JObj [(js ''ip'', JStr (js ''192.168.0.1''))])))) =
     Inr (JStr (js ''192.168.0.1''))"
proof -
  let ?f = "Inr (Response (Inr (JObj [(js ''ip'', JStr (js ''192.168.0.1''))])))"
  have a: "dotted_quad_canonical (js ''192.168.0.1'')" by code_simp
  have b: "\<not> dotted_quad_canonical (js ''256.1.1.1'')" by code_simp
  have c: "getPublicIp ?f = Inr (JStr (js ''192.168.0.1''))" by code_simp
  have m: "js ''256.1.1.1'' @ js '' does not look valid.'' = js ''256.1.1.1 does not look valid.''"
    by (simp add: js_def)
  from a checkIfValidIP_canonical_dotted_quad[of "js ''192.168.0.1''"]
  have a': "checkIfValidIP (JStr (js ''192.168.0.1'')) = Inr (JStr (js ''192.168.0.1''))" by blast
  from b checkIfValidIP_canonical_dotted_quad[of "js ''256.1.1.1''"]
  have b': "checkIfValidIP (JStr (js ''256.1.1.1'')) =
     Inl (JsError (js ''Error'') (js ''256.1.1.1 does not look valid.''))"
    unfolding m[symmetric] by blast
  from c checkIfValidIP_canonical_dotted_quad[of _ ?f "js ''192.168.0.1''"]
  have c': "dotted_quad_canonical (js ''192.168.0.1'')" by blast
  from c' a' b b' c show ?thesis by blast
qed

section \<open>The CloudWatchToSplunk construct\<close>

subsection \<open>The subscription filters\<close>

lemma addSubscriptionFilter_kinesis:
  "addSubscriptionFilter st r ''kinesis'' (KinesisDestination stream) FilterPattern_allEvents = Inr st' \<longleftrightarrow>
   ''kinesis'' \<notin> set (map fst (children (st r))) \<and>
   st' = st(r := (st r)\<lparr> children := children (st r) @ [kinesis_filter stream (st r)] \<rparr>)"
  by (auto simp: addSubscriptionFilter_def Let_def KinesisDestination_def kinesis_filter_def
      FilterPattern_allEvents_def)

lemma addSubscriptionFilter_kinesis_Inl:
  "(\<exists>e. addSubscriptionFilter st r ''kinesis'' (KinesisDestination stream) FilterPattern_allEvents = Inl e) \<longleftrightarrow>
   ''kinesis'' \<in> set (map fst (children (st r)))"
  by (auto simp: addSubscriptionFilter_def Let_def KinesisDestination_def)

lemma kinesis_filter_id: "fst (kinesis_filter stream lg) = ''kinesis''"
  by (simp add: kinesis_filter_def)

lemma forEach_logGroup_Inr:
  "forEach_logGroup stream lgs st = Inr st' \<Longrightarrow>
     distinct lgs \<and>
     (\<forall>r\<in>set lgs. ''kinesis'' \<notin> set (map fst (children (st r)))) \<and>
     (\<forall>r\<in>set lgs. st' r = (st r)\<lparr> children := children (st r) @ [kinesis_filter stream (st r)] \<rparr>) \<and>
     (\<forall>r. r \<notin> set lgs \<longrightarrow> st' r = st r)"
proof (induction lgs arbitrary: st)
  case Nil
  then show ?case by simp
next
  case (Cons r rest)
  let ?st1 = "st(r := (st r)\<lparr> children := children (st r) @ [kinesis_filter stream (st r)] \<rparr>)"
  from Cons.prems obtain st1 where
    add: "addSubscriptionFilter st r ''kinesis'' (KinesisDestination stream) FilterPattern_allEvents = Inr st1"
    and rest: "forEach_logGroup stream rest st1 = Inr st'"
    by (auto split: sum.splits)
  from add have fresh: "''kinesis'' \<notin> set (map fst (children (st r)))" and st1: "st1 = ?st1"
    by (simp_all add: addSubscriptionFilter_kinesis)
  from Cons.IH[OF rest] have
    d: "distinct rest" and
    f: "\<forall>q\<in>set rest. ''kinesis'' \<notin> set (map fst (children (st1 q)))" and
    u: "\<forall>q\<in>set rest. st' q = (st1 q)\<lparr> children := children (st1 q) @ [kinesis_filter stream (st1 q)] \<rparr>" and
    o: "\<forall>q. q \<notin> set rest \<longrightarrow> st' q = st1 q"
    by simp_all
  have "''kinesis'' \<in> set (map fst (children (st1 r)))"
    by (simp add: st1 kinesis_filter_id)
  with f have notin: "r \<notin> set rest" by blast
  have same: "\<And>q. q \<in> set rest \<Longrightarrow> st1 q = st q"
    using notin by (auto simp: st1)
  have "distinct (r # rest)" using d notin by simp
  moreover have "\<forall>q\<in>set (r # rest). ''kinesis'' \<notin> set (map fst (children (st q)))"
    using fresh f same by auto
  moreover have "\<forall>q\<in>set (r # rest).
      st' q = (st q)\<lparr> children := children (st q) @ [kinesis_filter stream (st q)] \<rparr>"
  proof
    fix q assume "q \<in> set (r # rest)"
    then consider "q = r" | "q \<in> set rest" by auto
    then show "st' q = (st q)\<lparr> children := children (st q) @ [kinesis_filter stream (st q)] \<rparr>"
    proof cases
      case 1
      with o notin have "st' q = st1 r" by simp
      then show ?thesis using 1 by (simp add: st1)
    next
      case 2
      with u same show ?thesis by simp
    qed
  qed
  moreover have "\<forall>q. q \<notin> set (r # rest) \<longrightarrow> st' q = st q"
    using o by (simp add: st1)
  ultimately show ?case by blast
qed

lemma forEach_logGroup_succeeds:
  "distinct lgs \<Longrightarrow> \<forall>r\<in>set lgs. ''kinesis'' \<notin> set (map fst (children (st r))) \<Longrightarrow>
   \<exists>st'. forEach_logGroup stream lgs st = Inr st'"
proof (induction lgs arbitrary: st)
  case Nil
  then show ?case by simp
next
  case (Cons r rest)
  let ?st1 = "st(r := (st r)\<lparr> children := children (st r) @ [kinesis_filter stream (st r)] \<rparr>)"
  have add: "addSubscriptionFilter st r ''kinesis'' (KinesisDestination stream) FilterPattern_allEvents = Inr ?st1"
    using Cons.prems by (simp add: addSubscriptionFilter_kinesis)
  from Cons.prems have d: "distinct rest" and notin: "r \<notin> set rest" by simp_all
  have f: "\<forall>q\<in>set rest. ''kinesis'' \<notin> set (map fst (children (?st1 q)))"
    using Cons.prems notin by auto
  from Cons.IH[OF d f] obtain st' where "forEach_logGroup stream rest ?st1 = Inr st'"
    by blast
  with add show ?case by simp
qed

lemma new_CloudWatchToSplunk_store:
  "new_CloudWatchToSplunk st scope ident props = Inr (st', c) \<Longrightarrow>
   forEach_logGroup (ingestStream c) (logGroups props) st = Inr st'"
  by (auto simp: new_CloudWatchToSplunk_def Let_def split: sum.splits)

lemma new_CloudWatchToSplunk_succeeds:
  assumes "distinct (logGroups props)"
    and "\<forall>r\<in>set (logGroups props). ''kinesis'' \<notin> set (map fst (children (st r)))"
  shows "\<exists>st' c. new_CloudWatchToSplunk st scope ident props = Inr (st', c)"
proof -
  let ?stream = "\<lparr> Stream.path = (scope @ [ident]) @ [''IngestStream''], streamMode = Some ON_DEMAND,
              shardCount = None, retentionPeriod = None \<rparr>"
  from forEach_logGroup_succeeds[OF assms] obtain st' where
    "forEach_logGroup ?stream (logGroups props) st = Inr st'" by blast
  then show ?thesis by (simp add: new_CloudWatchToSplunk_def Let_def)
qed

lemma test_constructs:
  "\<exists>st' c. new_CloudWatchToSplunk (\<lambda>_. test_logGroup) [''Default''] ''CloudWatchToSplunk'' test_props
      = Inr (st', c)"
  by (rule new_CloudWatchToSplunk_succeeds) (simp_all add: test_props_def test_logGroup_def)

lemma stack_constructs:
  "\<exists>st' c. new_CloudWatchToSplunk (\<lambda>_. stack_logGroup) [''CloudwatchLogsToSplunkStack'']
      ''CloudWatchToSplunk'' (stack_props zoneName) = Inr (st', c)"
  by (rule new_CloudWatchToSplunk_succeeds) (simp_all add: stack_props_def stack_logGroup_def)

text \<open>
  C3. When the constructor returns, every log group of \<open>props.logGroups\<close> has received
  exactly one new child, the subscription filter \<open>kinesis\<close> whose destination is the
  ingest stream and whose filter pattern is the empty pattern that matches all events;
  no other log group has changed. (The constructor returns exactly when the log groups of
  the list are distinct objects without a child \<open>kinesis\<close>: see
  \<open>new_CloudWatchToSplunk_succeeds\<close> and \<open>forEach_logGroup_Inr\<close>.)
\<close>

theorem subscription_filter_per_log_group:
  assumes "new_CloudWatchToSplunk st scope ident props = Inr (st', c)"
  shows "(\<forall>r\<in>set (logGroups props).
            st' r = (st r)\<lparr> children := children (st r) @
              [(''kinesis'', SubscriptionFilterChild
                  \<lparr> destinationArn = Stream_streamArn (ingestStream c), filterPattern = [],
                    roleArn = GetAtt (LogGroup.path (st r) @ [''kinesis'', ''CloudWatchLogsCanPutRecords''])
                      ''Arn'' \<rparr>)] \<rparr>) \<and>
         (\<forall>r. r \<notin> set (logGroups props) \<longrightarrow> st' r = st r)"
  using forEach_logGroup_Inr[OF new_CloudWatchToSplunk_store[OF assms]]
  by (simp add: kinesis_filter_def)

theorem subscription_filter_per_log_group_witness:
  "case test_CloudWatchToSplunk of
     Inl e \<Rightarrow> False
   | Inr (st', c) \<Rightarrow>
       children (st' 0) =
         [(''Resource'', OtherChild),
          (''kinesis'', SubscriptionFilterChild
            \<lparr> destinationArn = GetAtt [''Default'', ''CloudWatchToSplunk'', ''IngestStream''] ''Arn'',
              filterPattern = [],
              roleArn = GetAtt [''Default'', ''LogGroup'', ''kinesis'', ''CloudWatchLogsCanPutRecords'']
                ''Arn'' \<rparr>)] \<and>
       children (st' 1) = [(''Resource'', OtherChild)]"
proof -
  from test_constructs obtain st' c where
    eq: "new_CloudWatchToSplunk (\<lambda>_. test_logGroup) [''Default''] ''CloudWatchToSplunk'' test_props
           = Inr (st', c)" by blast
  have s: "Stream.path (ingestStream c) = [''Default'', ''CloudWatchToSplunk'', ''IngestStream'']"
    using eq by (auto simp: new_CloudWatchToSplunk_def Let_def split: sum.splits)
  note inst = subscription_filter_per_log_group[OF eq]
  from inst have "\<forall>r\<in>set (logGroups test_props).
          st' r = test_logGroup\<lparr> children := children test_logGroup @
              [(''kinesis'', SubscriptionFilterChild
                  \<lparr> destinationArn = Stream_streamArn (ingestStream c), filterPattern = [],
                    roleArn = GetAtt (LogGroup.path test_logGroup @ [''kinesis'', ''CloudWatchLogsCanPutRecords''])
                      ''Arn'' \<rparr>)] \<rparr>"
    by (rule conjunct1)
  then have a: "st' 0 = test_logGroup\<lparr> children := children test_logGroup @
              [(''kinesis'', SubscriptionFilterChild
                  \<lparr> destinationArn = Stream_streamArn (ingestStream c), filterPattern = [],
                    roleArn = GetAtt (LogGroup.path test_logGroup @ [''kinesis'', ''CloudWatchLogsCanPutRecords''])
                      ''Arn'' \<rparr>)] \<rparr>"
    by (simp add: test_props_def)
  from inst have "\<forall>r. r \<notin> set (logGroups test_props) \<longrightarrow> st' r = test_logGroup"
    by (rule conjunct2)
  then have b: "st' 1 = test_logGroup" by (simp add: test_props_def)
  from a b show ?thesis
    unfolding test_CloudWatchToSplunk_def eq
    by (simp add: test_logGroup_def Stream_streamArn_def s)
qed

subsection \<open>The delivery stream\<close>

text \<open>
  When the constructor returns, the delivery stream it has created takes its records from
  the ingest stream and has processing enabled, with exactly one processor: of type
  \<open>Lambda\<close>, with the ARN of the CloudWatch transform function as \<open>LambdaArn\<close>
  and the ARN of the delivery role as \<open>RoleArn\<close>.
\<close>

lemma delivery_stream_source_and_processing:
  assumes "new_CloudWatchToSplunk st scope ident props = Inr (st', c)"
  shows "deliveryStreamType (splunkDeliveryStream c) = ''KinesisStreamAsSource'' \<and>
         kinesisStreamArn (kinesisStreamSourceConfiguration (splunkDeliveryStream c)) =
           Stream_streamArn (ingestStream c) \<and>
         ProcessingConfiguration.enabled
           (processingConfiguration (splunkDestinationConfiguration (splunkDeliveryStream c))) \<and>
         processors
           (processingConfiguration (splunkDestinationConfiguration (splunkDeliveryStream c))) =
           [\<lparr> type = ''Lambda'',
              parameters =
                [\<lparr> parameterName = ''LambdaArn'',
                   parameterValue = Function_functionArn (cloudwatchTransformer c) \<rparr>,
                 \<lparr> parameterName = ''RoleArn'',
                   parameterValue = Role_roleArn (deliveryStreamRole c) \<rparr>] \<rparr>]"
  using assms
  by (auto simp: new_CloudWatchToSplunk_def Let_def addDependsOn_def Role_roleArn_def
      Bucket_grantWrite_def Function_grantInvoke_def LogGroup_grantWrite_def split: sum.splits)

text \<open>
  When the constructor returns, the S3 destination of the delivery stream is the backup
  bucket of the construct, written with the delivery role, which has been granted write
  access to the bucket; and CloudWatch error logging is enabled, targeting the log stream
  of the construct that is named \<open>errors\<close> and belongs to the dedicated error log
  group, to which the delivery role may write.
\<close>

lemma delivery_stream_backup_and_error_log:
  assumes "new_CloudWatchToSplunk st scope ident props = Inr (st', c)"
  shows "S3Configuration.bucketArn
           (s3Configuration (splunkDestinationConfiguration (splunkDeliveryStream c))) =
           Bucket_bucketArn (backupBucket c) \<and>
         S3Configuration.roleArn
           (s3Configuration (splunkDestinationConfiguration (splunkDeliveryStream c))) =
           Role_roleArn (deliveryStreamRole c) \<and>
         CloudWatchLoggingOptions.enabled
           (cloudWatchLoggingOptions (splunkDestinationConfiguration (splunkDeliveryStream c))) \<and>
         CloudWatchLoggingOptions.logGroupName
           (cloudWatchLoggingOptions (splunkDestinationConfiguration (splunkDeliveryStream c))) =
           LogGroup_logGroupName (kinesisDeliveryStreamLogs c) \<and>
         CloudWatchLoggingOptions.logStreamName
           (cloudWatchLoggingOptions (splunkDestinationConfiguration (splunkDeliveryStream c))) =
           LogStream_logStreamName (kinesisErrorsLogStream c) \<and>
         LogStream.logStreamName (kinesisErrorsLogStream c) = ''errors'' \<and>
         logGroup (kinesisErrorsLogStream c) = kinesisDeliveryStreamLogs c \<and>
         (\<exists>s\<in>set (defaultPolicy (deliveryStreamRole c)).
            ''s3:PutObject'' \<in> set (actions s) \<and> Bucket_bucketArn (backupBucket c) \<in> set (resources s)) \<and>
         (\<exists>s\<in>set (defaultPolicy (deliveryStreamRole c)).
            ''logs:PutLogEvents'' \<in> set (actions s) \<and>
            LogGroup_logGroupArn (kinesisDeliveryStreamLogs c) \<in> set (resources s))"
  using assms
  by (auto simp: new_CloudWatchToSplunk_def Let_def addDependsOn_def Role_roleArn_def
      Bucket_grantWrite_def Function_grantInvoke_def LogGroup_grantWrite_def split: sum.splits)

text \<open>
  C4, as stated: a \<open>hecEndpoint\<close> that is not an HTTPS URL is never accepted or used.
  The constructor has no check of the endpoint: called as in the test but with
  \<open>http://my-endpoint:8088\<close>, it returns, and the delivery stream has that endpoint.
\<close>

theorem hecEndpoint_http_counterexample:
  "case new_CloudWatchToSplunk (\<lambda>_. test_logGroup) [''Default''] ''CloudWatchToSplunk''
          (test_props\<lparr> CloudWatchToSplunkProps.hecEndpoint := ''http://my-endpoint:8088'' \<rparr>) of
     Inl e \<Rightarrow> False
   | Inr (st', c) \<Rightarrow>
       SplunkDestinationConfiguration.hecEndpoint
         (splunkDestinationConfiguration (splunkDeliveryStream c)) = ''http://my-endpoint:8088'' \<and>
       \<not> is_https (SplunkDestinationConfiguration.hecEndpoint
         (splunkDestinationConfiguration (splunkDeliveryStream c)))"
  by (simp add: new_CloudWatchToSplunk_def Let_def addDependsOn_def test_props_def
      test_logGroup_def addSubscriptionFilter_def KinesisDestination_def is_https_def)

text \<open>
  C4, as amended. When the constructor returns, the delivery stream has the endpoint
  \<open>props.hecEndpoint\<close> as it was passed, the endpoint type \<open>Raw\<close> and the token
  \<open>props.hecToken.toString()\<close>; so the delivery stream uses an HTTPS endpoint exactly
  when the caller passes one. That the endpoint must use TLS is a requirement on the
  caller, which the construct does not check.
\<close>

theorem hecEndpoint_passed_through:
  assumes "new_CloudWatchToSplunk st scope ident props = Inr (st', c)"
  shows "SplunkDestinationConfiguration.hecEndpoint
           (splunkDestinationConfiguration (splunkDeliveryStream c)) =
           CloudWatchToSplunkProps.hecEndpoint props \<and>
         hecEndpointType (splunkDestinationConfiguration (splunkDeliveryStream c)) = ''Raw'' \<and>
         SplunkDestinationConfiguration.hecToken
           (splunkDestinationConfiguration (splunkDeliveryStream c)) =
           SecretValue_toString (CloudWatchToSplunkProps.hecToken props) \<and>
         (is_https (SplunkDestinationConfiguration.hecEndpoint
            (splunkDestinationConfiguration (splunkDeliveryStream c))) \<longleftrightarrow>
          is_https (CloudWatchToSplunkProps.hecEndpoint props))"
  using assms
  by (auto simp: new_CloudWatchToSplunk_def Let_def addDependsOn_def split: sum.splits)

theorem hecEndpoint_passed_through_witness:
  "case test_CloudWatchToSplunk of
     Inl e \<Rightarrow> False
   | Inr (st', c) \<Rightarrow>
       SplunkDestinationConfiguration.hecEndpoint
         (splunkDestinationConfiguration (splunkDeliveryStream c)) = ''https://my-endpoint:8088'' \<and>
       hecEndpointType (splunkDestinationConfiguration (splunkDeliveryStream c)) = ''Raw'' \<and>
       is_https (SplunkDestinationConfiguration.hecEndpoint
         (splunkDestinationConfiguration (splunkDeliveryStream c)))"
proof -
  from test_constructs obtain st' c where
    eq: "new_CloudWatchToSplunk (\<lambda>_. test_logGroup) [''Default''] ''CloudWatchToSplunk'' test_props
           = Inr (st', c)" by blast
  have h: "is_https (CloudWatchToSplunkProps.hecEndpoint test_props)"
    by (simp add: test_props_def is_https_def)
  from hecEndpoint_passed_through[OF eq] h show ?thesis
    unfolding test_CloudWatchToSplunk_def eq by (simp add: test_props_def)
qed

lemma merge_lits_head: "\<exists>q rest'. merge_lits (Lit p # rest) = Lit (p @ q) # rest'"
proof (induction rest arbitrary: p)
  case Nil
  show ?case by simp
next
  case (Cons x rest)
  show ?case
  proof (cases x)
    case (Lit b)
    from Cons.IH[of "p @ b"] obtain q rest' where
      "merge_lits (Lit (p @ b) # rest) = Lit ((p @ b) @ q) # rest'" by blast
    then have "merge_lits (Lit p # x # rest) = Lit (p @ (b @ q)) # rest'"
      by (simp add: Lit)
    then show ?thesis by blast
  next
    case (Ref r)
    then have "merge_lits (Lit p # x # rest) = Lit (p @ []) # merge_lits (x # rest)" by simp
    then show ?thesis by blast
  next
    case (GetAtt r a)
    then have "merge_lits (Lit p # x # rest) = Lit (p @ []) # merge_lits (x # rest)" by simp
    then show ?thesis by blast
  next
    case (Join xs)
    then have "merge_lits (Lit p # x # rest) = Lit (p @ []) # merge_lits (x # rest)" by simp
    then show ?thesis by blast
  qed
qed

lemma secretsManager_dynamic_reference:
  "dynamic_reference (SecretValue_toString (secretsManager secretId))"
proof -
  let ?p = "''{{resolve:secretsmanager:''"
  obtain q rest' where
    m: "merge_lits (Lit ?p # flatten secretId @ [Lit '':SecretString:::}}'']) = Lit (?p @ q) # rest'"
    using merge_lits_head by blast
  have t: "take 25 (?p @ q) = ?p" by simp
  show ?thesis
  proof (cases rest')
    case Nil
    with m t show ?thesis by (simp add: cfn_concat_def)
  next
    case (Cons y ys)
    with m t show ?thesis by (simp add: cfn_concat_def)
  qed
qed

text \<open>
  C10, as stated: for every \<open>hecToken\<close> the token appears in plain text in the template
  rather than as a secret reference. The stack of this repository passes the token of
  its Splunk service, the value of the secret that holds the token: the delivery stream
  then holds the dynamic reference to that secret, not the text of the token.
\<close>

theorem hecToken_secret_reference_counterexample:
  "case stack_CloudWatchToSplunk ''XXXXXXXXXX'' of
     Inl e \<Rightarrow> False
   | Inr (st', c) \<Rightarrow>
       SplunkDestinationConfiguration.hecToken
         (splunkDestinationConfiguration (splunkDeliveryStream c)) =
         Join [Lit ''{{resolve:secretsmanager:'',
               Ref [''CloudwatchLogsToSplunkStack'', ''SplunkService'', ''SplunkHECTokenSecret''],
               Lit '':SecretString:::}}''] \<and>
       dynamic_reference (SplunkDestinationConfiguration.hecToken
         (splunkDestinationConfiguration (splunkDeliveryStream c))) \<and>
       SplunkDestinationConfiguration.hecToken
         (splunkDestinationConfiguration (splunkDeliveryStream c)) \<noteq>
         Lit SplunkHECTokenSecret_secretString"
  by (simp add: stack_CloudWatchToSplunk_def new_CloudWatchToSplunk_def Let_def addDependsOn_def
      stack_props_def stack_logGroup_def addSubscriptionFilter_def KinesisDestination_def
      SplunkService_hecToken_def Secret_secretValue_def cfn_concat_def)

text \<open>
  C10, as amended. When the constructor returns, the \<open>HECToken\<close> of the delivery stream
  is what \<open>props.hecToken.toString()\<close> synthesizes to: for a token given in plain text
  it is that text, which so appears in the template; for the value of a secret of Secrets
  Manager it is the dynamic reference to the secret.
\<close>

theorem hecToken_toString_embedded:
  assumes "new_CloudWatchToSplunk st scope ident props = Inr (st', c)"
  shows "SplunkDestinationConfiguration.hecToken
           (splunkDestinationConfiguration (splunkDeliveryStream c)) =
           SecretValue_toString (CloudWatchToSplunkProps.hecToken props) \<and>
         (\<forall>v. CloudWatchToSplunkProps.hecToken props = plainText v \<longrightarrow>
            SplunkDestinationConfiguration.hecToken
              (splunkDestinationConfiguration (splunkDeliveryStream c)) = Lit v) \<and>
         (\<forall>secretId. CloudWatchToSplunkProps.hecToken props = secretsManager secretId \<longrightarrow>
            dynamic_reference (SplunkDestinationConfiguration.hecToken
              (splunkDestinationConfiguration (splunkDeliveryStream c))))"
proof -
  have eq: "SplunkDestinationConfiguration.hecToken
           (splunkDestinationConfiguration (splunkDeliveryStream c)) =
           SecretValue_toString (CloudWatchToSplunkProps.hecToken props)"
    using assms
    by (auto simp: new_CloudWatchToSplunk_def Let_def addDependsOn_def split: sum.splits)
  show ?thesis
    unfolding eq using secretsManager_dynamic_reference by auto
qed

theorem hecToken_toString_embedded_witness:
  "(case test_CloudWatchToSplunk of
      Inl e \<Rightarrow> False
    | Inr (st', c) \<Rightarrow>
        SplunkDestinationConfiguration.hecToken
          (splunkDestinationConfiguration (splunkDeliveryStream c)) = Lit ''value'') \<and>
   (case stack_CloudWatchToSplunk ''XXXXXXXXXX'' of
      Inl e \<Rightarrow> False
    | Inr (st', c) \<Rightarrow>
        dynamic_reference (SplunkDestinationConfiguration.hecToken
          (splunkDestinationConfiguration (splunkDeliveryStream c))))"
proof -
  from test_constructs obtain st' c where
    eq: "new_CloudWatchToSplunk (\<lambda>_. test_logGroup) [''Default''] ''CloudWatchToSplunk'' test_props
           = Inr (st', c)" by blast
  have h: "CloudWatchToSplunkProps.hecToken test_props = plainText ''value''"
    by (simp add: test_props_def)
  from hecToken_toString_embedded[OF eq] h have a: "case test_CloudWatchToSplunk of
      Inl e \<Rightarrow> False
    | Inr (st', c) \<Rightarrow>
        SplunkDestinationConfiguration.hecToken
          (splunkDestinationConfiguration (splunkDeliveryStream c)) = Lit ''value''"
    unfolding test_CloudWatchToSplunk_def eq by simp
  from stack_constructs[of "''XXXXXXXXXX''"] obtain st2 c2 where
    eq2: "new_CloudWatchToSplunk (\<lambda>_. stack_logGroup) [''CloudwatchLogsToSplunkStack'']
            ''CloudWatchToSplunk'' (stack_props ''XXXXXXXXXX'') = Inr (st2, c2)" by blast
  have h2: "CloudWatchToSplunkProps.hecToken (stack_props ''XXXXXXXXXX'') =
      secretsManager (Ref [''CloudwatchLogsToSplunkStack'', ''SplunkService'', ''SplunkHECTokenSecret''])"
    by (simp add: stack_props_def SplunkService_hecToken_def Secret_secretValue_def)
  from hecToken_toString_embedded[OF eq2] h2
  have d: "dynamic_reference (SplunkDestinationConfiguration.hecToken
          (splunkDestinationConfiguration (splunkDeliveryStream c2)))"
    by blast
  have b: "case stack_CloudWatchToSplunk ''XXXXXXXXXX'' of
      Inl e \<Rightarrow> False
    | Inr (st', c) \<Rightarrow>
        dynamic_reference (SplunkDestinationConfiguration.hecToken
          (splunkDestinationConfiguration (splunkDeliveryStream c)))"
    unfolding stack_CloudWatchToSplunk_def eq2 using d by simp
  from a b show ?thesis by (rule conjI)
qed

subsection \<open>The backup bucket\<close>

text \<open>
  C5, as stated: the batches persisted in the backup store are not deleted by the
  system. The backup bucket of the construct of the test is created with
  \<open>autoDeleteObjects\<close>: when the bucket is removed, its objects are deleted.
\<close>

theorem backup_bucket_auto_delete_counterexample:
  "case test_CloudWatchToSplunk of
     Inl e \<Rightarrow> False
   | Inr (st', c) \<Rightarrow> \<not> objects_retained (backupBucket c)"
  by (simp add: test_CloudWatchToSplunk_def new_CloudWatchToSplunk_def Let_def addDependsOn_def
      test_props_def test_logGroup_def addSubscriptionFilter_def KinesisDestination_def
      objects_retained_def)

text \<open>
  C5, as amended. The backup store is the bucket that the construct creates as the S3
  destination of the delivery stream. It is created with the removal policy
  \<open>DESTROY\<close> and with \<open>autoDeleteObjects\<close>, and the grant to the delivery role
  includes \<open>s3:DeleteObject*\<close>: the persisted batches are available for manual replay
  as long as the bucket is part of the stack, and are deleted with it.
\<close>

theorem backup_bucket_configuration:
  assumes "new_CloudWatchToSplunk st scope ident props = Inr (st', c)"
  shows "Bucket.removalPolicy (backupBucket c) = Some DESTROY \<and>
         autoDeleteObjects (backupBucket c) = Some True \<and>
         \<not> objects_retained (backupBucket c) \<and>
         S3Configuration.bucketArn
           (s3Configuration (splunkDestinationConfiguration (splunkDeliveryStream c))) =
           Bucket_bucketArn (backupBucket c) \<and>
         (\<exists>s\<in>set (defaultPolicy (deliveryStreamRole c)).
            ''s3:DeleteObject*'' \<in> set (actions s) \<and>
            Join [Bucket_bucketArn (backupBucket c), Lit ''/*''] \<in> set (resources s))"
  using assms
  by (auto simp: new_CloudWatchToSplunk_def Let_def addDependsOn_def objects_retained_def
      Bucket_grantWrite_def Function_grantInvoke_def LogGroup_grantWrite_def split: sum.splits)

theorem backup_bucket_configuration_witness:
  "case test_CloudWatchToSplunk of
     Inl e \<Rightarrow> False
   | Inr (st', c) \<Rightarrow>
       Bucket.removalPolicy (backupBucket c) = Some DESTROY \<and>
       autoDeleteObjects (backupBucket c) = Some True"
proof -
  from test_constructs obtain st' c where
    eq: "new_CloudWatchToSplunk (\<lambda>_. test_logGroup) [''Default''] ''CloudWatchToSplunk'' test_props
           = Inr (st', c)" by blast
  from backup_bucket_configuration[OF eq] show ?thesis
    unfolding test_CloudWatchToSplunk_def eq by simp
qed

subsection \<open>The ingest stream\<close>

text \<open>
  C6. When the constructor returns, the ingest stream it has created is in the capacity
  mode \<open>ON_DEMAND\<close>, and no shard count is configured.
\<close>

theorem ingest_stream_on_demand:
  assumes "new_CloudWatchToSplunk st scope ident props = Inr (st', c)"
  shows "streamMode (ingestStream c) = Some ON_DEMAND \<and> shardCount (ingestStream c) = None"
  using assms
  by (auto simp: new_CloudWatchToSplunk_def Let_def split: sum.splits)

theorem ingest_stream_on_demand_witness:
  "case test_CloudWatchToSplunk of
     Inl e \<Rightarrow> False
   | Inr (st', c) \<Rightarrow> streamMode (ingestStream c) = Some ON_DEMAND \<and> shardCount (ingestStream c) = None"
proof -
  from test_constructs obtain st' c where
    eq: "new_CloudWatchToSplunk (\<lambda>_. test_logGroup) [''Default''] ''CloudWatchToSplunk'' test_props
           = Inr (st', c)" by blast
  from ingest_stream_on_demand[OF eq] show ?thesis
    unfolding test_CloudWatchToSplunk_def eq by simp
qed

text \<open>
  C7. When the constructor returns, the ingest stream it has created has no retention
  period of its own, so that the default applies: the synthesized stream retains its
  records for 24 hours.
\<close>

theorem ingest_stream_retention:
  assumes "new_CloudWatchToSplunk st scope ident props = Inr (st', c)"
  shows "retentionPeriod (ingestStream c) = None \<and> RetentionPeriodHours (ingestStream c) = 24"
  using assms
  by (auto simp: new_CloudWatchToSplunk_def Let_def RetentionPeriodHours_def split: sum.splits)

theorem ingest_stream_retention_witness:
  "case test_CloudWatchToSplunk of
     Inl e \<Rightarrow> False
   | Inr (st', c) \<Rightarrow> RetentionPeriodHours (ingestStream c) = 24"
proof -
  from test_constructs obtain st' c where
    eq: "new_CloudWatchToSplunk (\<lambda>_. test_logGroup) [''Default''] ''CloudWatchToSplunk'' test_props
           = Inr (st', c)" by blast
  from ingest_stream_retention[OF eq] show ?thesis
    unfolding test_CloudWatchToSplunk_def eq by simp
qed

end
